theory Spec2Isabelle
  imports Complex_Main "HOL-Library.Sublist"
begin

section \<open>Data model (types.ts)\<close>

text \<open>
  A \<open>NewsItem\<close> is the TypeScript interface of the same name. Numbers that the
  pipeline only ever fills with integers (scores, epoch milliseconds) are \<open>int\<close>;
  \<open>publishedAt\<close> is the value of \<open>Date.getTime()\<close> of a valid date. The quotients
  of two set sizes that the similarity tests compare with decimal thresholds are taken
  in \<open>real\<close>: the operands are small integers, where a correctly rounded double
  quotient compares with each threshold literal exactly as the rational quotient does.
  The age of a document and its recency score are computed in double arithmetic, one
  rounding per operation of the source.

  Strings are HOL strings, one \<open>char\<close> per UTF-16 code unit in the range
  U+0000 to U+00FF. Every code unit beyond that range is outside the alphabet of the
  tokenizers and is turned into a space by them, like any other non-alphabet character
  of the modelled range.
\<close>

record ScoreBreakdown =
  crossFeedScore :: int
  recencyScore :: int
  trendingScore :: int
  socialScore :: int
  totalScore :: int

record NewsItem =
  title :: string
  link :: string
  source :: string
  publishedAt :: int
  description :: string
  relevanceScore :: int
  scoreBreakdown :: ScoreBreakdown

section \<open>JavaScript numbers\<close>

text \<open>
  A JavaScript number is an IEEE 754 double: a real \<open>m \<times> 2\<^sup>e\<close> with an integer
  significand \<open>m\<close> of at most 53 bits. \<open>toDouble x\<close> is the double nearest to the real
  \<open>x\<close>, a tie going to the even significand; an arithmetic operation of the source
  returns \<open>toDouble\<close> of its exact result. \<open>binade x\<close> is the exponent \<open>e\<close> with
  \<open>2\<^sup>e \<le> x < 2\<^sup>e\<^sup>+\<^sup>1\<close> and \<open>ulp x\<close> the distance of neighbouring doubles there. The
  exponent is not bounded in the model; the quantities computed from the time values of
  the \<open>Date\<close> range stay far inside the normal range of doubles.
\<close>

definition roundHalfEven :: "real \<Rightarrow> int" where
  "roundHalfEven y =
     (let f = \<lfloor>y\<rfloor>; r = y - of_int f
      in if r < 1 / 2 then f else if r > 1 / 2 then f + 1 else if even f then f else f + 1)"

definition binade :: "real \<Rightarrow> int" where
  "binade x = \<lfloor>log 2 x\<rfloor>"

definition ulp :: "real \<Rightarrow> real" where
  "ulp x = 2 powr (of_int (binade x) - 52)"

definition nearestDouble :: "real \<Rightarrow> real" where
  "nearestDouble x = of_int (roundHalfEven (x / ulp x)) * ulp x"

definition toDouble :: "real \<Rightarrow> real" where
  "toDouble x =
     (if x = 0 then 0 else if x < 0 then - nearestDouble (- x) else nearestDouble x)"

text \<open>\<open>Math.round\<close> rounds to the nearest integer, a half upwards.\<close>

definition mathRound :: "real \<Rightarrow> int" where
  "mathRound x = \<lfloor>x + 1 / 2\<rfloor>"

section \<open>JavaScript strings and sets\<close>

text \<open>
  A JavaScript \<open>Set\<close> keeps its members in insertion order without repetition; it is
  modelled as the list of its members in that order. \<open>newSet xs\<close> is
  \<open>new Set(xs)\<close>, \<open>setAdd\<close> is \<open>Set.add\<close>, \<open>has\<close> is \<open>Set.has\<close> and
  \<open>length\<close> reads \<open>Set.size\<close>.
\<close>

definition setAdd :: "'a list \<Rightarrow> 'a \<Rightarrow> 'a list" where
  "setAdd s x = (if x \<in> set s then s else s @ [x])"

definition newSet :: "'a list \<Rightarrow> 'a list" where
  "newSet xs = foldl setAdd [] xs"

definition has :: "'a list \<Rightarrow> 'a \<Rightarrow> bool" where
  "has s x = (x \<in> set s)"

definition upperLetters :: string where
  "upperLetters = ''ABCDEFGHIJKLMNOPQRSTUVWXYZ'' @
     [CHR 0xC0, CHR 0xC1, CHR 0xC2, CHR 0xC3, CHR 0xC4, CHR 0xC5, CHR 0xC6, CHR 0xC7,
      CHR 0xC8, CHR 0xC9, CHR 0xCA, CHR 0xCB, CHR 0xCC, CHR 0xCD, CHR 0xCE, CHR 0xCF,
      CHR 0xD0, CHR 0xD1, CHR 0xD2, CHR 0xD3, CHR 0xD4, CHR 0xD5, CHR 0xD6,
      CHR 0xD8, CHR 0xD9, CHR 0xDA, CHR 0xDB, CHR 0xDC, CHR 0xDD, CHR 0xDE]"

definition lowerLetters :: string where
  "lowerLetters = ''abcdefghijklmnopqrstuvwxyz'' @
     [CHR 0xE0, CHR 0xE1, CHR 0xE2, CHR 0xE3, CHR 0xE4, CHR 0xE5, CHR 0xE6, CHR 0xE7,
      CHR 0xE8, CHR 0xE9, CHR 0xEA, CHR 0xEB, CHR 0xEC, CHR 0xED, CHR 0xEE, CHR 0xEF,
      CHR 0xF0, CHR 0xF1, CHR 0xF2, CHR 0xF3, CHR 0xF4, CHR 0xF5, CHR 0xF6,
      CHR 0xF8, CHR 0xF9, CHR 0xFA, CHR 0xFB, CHR 0xFC, CHR 0xFD, CHR 0xFE]"

text \<open>\<open>String.prototype.toLowerCase\<close> on the modelled range: the letters A to Z and
  U+00C0 to U+00DE (without the multiplication sign U+00D7) move to their lower-case
  partners, every other code unit stays.\<close>

definition toLowerCase :: "string \<Rightarrow> string" where
  "toLowerCase s =
     map (\<lambda>c. case map_of (zip upperLetters lowerLetters) c of Some l \<Rightarrow> l | None \<Rightarrow> c) s"

text \<open>The class \<open>\s\<close>: tab, line feed, vertical tab, form feed, carriage return,
  space and no-break space.\<close>

definition isSpace :: "char \<Rightarrow> bool" where
  "isSpace c = (c \<in> set [CHR 0x09, CHR 0x0A, CHR 0x0B, CHR 0x0C, CHR 0x0D, CHR '' '', CHR 0xA0])"

text \<open>The letters and digits of the class \<open>[a-z\<dots>0-9]\<close> under the flag \<open>i\<close>:
  a to z, the sixteen accented letters listed in the source, the digits, and the
  upper-case partners of the letters.\<close>

definition alphabetLower :: string where
  "alphabetLower = ''abcdefghijklmnopqrstuvwxyz'' @
     [CHR 0xE1, CHR 0xE0, CHR 0xE2, CHR 0xE3, CHR 0xE9, CHR 0xE8, CHR 0xEA, CHR 0xED,
      CHR 0xEF, CHR 0xF3, CHR 0xF4, CHR 0xF5, CHR 0xF6, CHR 0xFA, CHR 0xE7, CHR 0xF1]"

definition alphabetUpper :: string where
  "alphabetUpper = ''ABCDEFGHIJKLMNOPQRSTUVWXYZ'' @
     [CHR 0xC1, CHR 0xC0, CHR 0xC2, CHR 0xC3, CHR 0xC9, CHR 0xC8, CHR 0xCA, CHR 0xCD,
      CHR 0xCF, CHR 0xD3, CHR 0xD4, CHR 0xD5, CHR 0xD6, CHR 0xDA, CHR 0xC7, CHR 0xD1]"

definition inAlphabet :: "char \<Rightarrow> bool" where
  "inAlphabet c = (c \<in> set alphabetLower \<or> c \<in> set alphabetUpper \<or> c \<in> set ''0123456789'')"

text \<open>\<open>.replace(/[^a-z\<dots>0-9\s]/gi, ' ')\<close>: every character that is neither in the
  alphabet nor white space becomes a space.\<close>

definition stripNonAlphabet :: "string \<Rightarrow> string" where
  "stripNonAlphabet s = map (\<lambda>c. if inAlphabet c \<or> isSpace c then c else CHR '' '') s"

text \<open>\<open>.replace(/\s+/g, ' ')\<close>: every maximal run of white space becomes one space.\<close>

function collapseSpaces :: "string \<Rightarrow> string" where
  "collapseSpaces [] = []"
| "collapseSpaces (c # cs) =
     (if isSpace c then CHR '' '' # collapseSpaces (dropWhile isSpace cs)
      else c # collapseSpaces cs)"
  by pat_completeness auto
termination
  by (relation "measure length") (auto simp: length_dropWhile_le less_Suc_eq_le)

definition trim :: "string \<Rightarrow> string" where
  "trim s = rev (dropWhile isSpace (rev (dropWhile isSpace s)))"

text \<open>\<open>.split(' ')\<close>: the pieces between single spaces; the empty string gives one
  empty piece.\<close>

fun splitSpace :: "string \<Rightarrow> string list" where
  "splitSpace [] = [[]]"
| "splitSpace (c # cs) =
     (if c = CHR '' '' then [] # splitSpace cs
      else (case splitSpace cs of [] \<Rightarrow> [[c]] | w # ws \<Rightarrow> (c # w) # ws))"

text \<open>\<open>.split(/\s+/)\<close>: the pieces between maximal runs of white space.\<close>

function splitWhitespace :: "string \<Rightarrow> string list" where
  "splitWhitespace [] = [[]]"
| "splitWhitespace (c # cs) =
     (if isSpace c then [] # splitWhitespace (dropWhile isSpace cs)
      else (case splitWhitespace cs of [] \<Rightarrow> [[c]] | w # ws \<Rightarrow> (c # w) # ws))"
  by pat_completeness auto
termination
  by (relation "measure length") (auto simp: length_dropWhile_le less_Suc_eq_le)

section \<open>Tokenizer and similarity engine (dedup.ts)\<close>

text \<open>The first replacement of \<open>normalizeTitle\<close> turns the apostrophe, the double
  quote and the hyphen into a space; the en dash and the em dash of its class lie beyond
  the modelled range.\<close>

definition normalizeTitle :: "string \<Rightarrow> string" where
  "normalizeTitle t =
     trim (collapseSpaces (stripNonAlphabet
       (map (\<lambda>c. if c \<in> set [CHR 0x27, CHR 0x22, CHR ''-''] then CHR '' '' else c)
         (toLowerCase t))))"

definition DEDUP_STOP_WORDS :: "string list" where
  "DEDUP_STOP_WORDS =
    [''a'', ''an'', ''the'', ''is'', ''are'', ''was'', ''were'', ''be'', ''been'', ''to'', ''of'',
     ''in'', ''for'', ''on'', ''with'', ''at'', ''by'', ''from'', ''as'', ''and'', ''but'', ''or'',
     ''it'', ''its'', ''this'', ''that'', ''has'', ''have'', ''had'', ''will'', ''not'', ''no'',
     ''can'', ''do'', ''does'', ''did'', ''says'', ''said'', ''new'', ''how'', ''what'', ''why'',
     ''who'', ''when'', ''where'', ''after'', ''over'', ''up'', ''out'', ''into'', ''about'',
     ''de'', ''da'', ''do'', ''dos'', ''das'', ''em'', ''no'', ''na'', ''nos'', ''nas'',
     ''um'', ''uma'', ''por'', ''para'', ''com'', ''sem'', ''que'', ''se'', ''mais'', ''mas'',
     ''seu'', ''sua'', ''foi'', ''ser'', ''ter'', ''diz'', [CHR ''s'', CHR 0xE3, CHR ''o''],
     ''tem'', ''vai'',
     ''sobre'', ''entre'', ''como'', [CHR ''j'', CHR 0xE1], [CHR ''a'', CHR ''t'', CHR 0xE9],
     [CHR ''n'', CHR 0xE3, CHR ''o''], [CHR ''h'', CHR 0xE1], ''os'', ''as'']"

definition extractSignificantWords :: "string \<Rightarrow> string list" where
  "extractSignificantWords t =
     filter (\<lambda>w. length w > 2 \<and> \<not> has DEDUP_STOP_WORDS w) (splitSpace (normalizeTitle t))"

definition jaccardSimilarity :: "string list \<Rightarrow> string list \<Rightarrow> real" where
  "jaccardSimilarity wordsA wordsB =
     (let setA = newSet wordsA; setB = newSet wordsB
      in if length setA = 0 \<or> length setB = 0 then 0
         else (let intersection = length (filter (has setB) setA);
                   union = length (newSet (setA @ setB))
               in if union > 0 then of_nat intersection / of_nat union else 0))"

definition overlapCoefficient :: "string list \<Rightarrow> string list \<Rightarrow> real" where
  "overlapCoefficient wordsA wordsB =
     (let setA = newSet wordsA; setB = newSet wordsB
      in if length setA = 0 \<or> length setB = 0 then 0
         else (let intersection = length (filter (has setB) setA)
               in of_nat intersection / of_nat (min (length setA) (length setB))))"

definition areSimilar :: "string \<Rightarrow> string \<Rightarrow> bool" where
  "areSimilar titleA titleB =
     (let wordsA = extractSignificantWords titleA;
          wordsB = extractSignificantWords titleB
      in if length wordsA \<le> 2 \<or> length wordsB \<le> 2
         then jaccardSimilarity wordsA wordsB \<ge> 6 / 10
         else (let jaccard = jaccardSimilarity wordsA wordsB;
                   overlap = overlapCoefficient wordsA wordsB
               in if jaccard \<ge> 35 / 100 then True
                  else if overlap \<ge> 65 / 100 then True
                  else if jaccard \<ge> 25 / 100 \<and> overlap \<ge> 5 / 10 then True
                  else False))"

text \<open>The two metrics as the specification words them, on sets of significant words.\<close>

definition Jaccard :: "string set \<Rightarrow> string set \<Rightarrow> real" where
  "Jaccard A B =
     (if A = {} \<or> B = {} then 0 else of_nat (card (A \<inter> B)) / of_nat (card (A \<union> B)))"

definition Overlap :: "string set \<Rightarrow> string set \<Rightarrow> real" where
  "Overlap A B =
     (if A = {} \<or> B = {} then 0
      else of_nat (card (A \<inter> B)) / of_nat (min (card A) (card B)))"

section \<open>Deduplicator (dedup.ts)\<close>

text \<open>\<open>[...items].sort((a, b) => b.relevanceScore - a.relevanceScore)\<close>: a stable sort
  by descending score.\<close>

definition sortByScoreDesc :: "NewsItem list \<Rightarrow> NewsItem list" where
  "sortByScoreDesc items = sort_key (\<lambda>x. - relevanceScore x) items"

text \<open>One round of the loop of \<open>deduplicateBySimilarity\<close>; the state is the pair of
  the arrays \<open>kept\<close> and \<open>keptWords\<close>.\<close>

definition dedupStep ::
  "NewsItem list \<times> string list list \<Rightarrow> NewsItem \<Rightarrow> NewsItem list \<times> string list list" where
  "dedupStep st x =
     (case st of (kept, keptWords) \<Rightarrow>
        (let words = extractSignificantWords (title x);
             isDuplicate =
               list_ex (\<lambda>idx. areSimilar (title x) (title (kept ! idx))) [0..<length kept]
         in if \<not> isDuplicate then (kept @ [x], keptWords @ [words]) else (kept, keptWords)))"

definition deduplicateBySimilarity :: "NewsItem list \<Rightarrow> NewsItem list" where
  "deduplicateBySimilarity items =
     (if length items = 0 then []
      else fst (foldl dedupStep ([], []) (sortByScoreDesc items)))"

text \<open>The duplicate test of \<open>finalDedup\<close> on two word lists.\<close>

definition finalDuplicate :: "string list \<Rightarrow> string list \<Rightarrow> bool" where
  "finalDuplicate words existingWords =
     (let jaccard = jaccardSimilarity words existingWords;
          overlap = overlapCoefficient words existingWords
      in jaccard \<ge> 3 / 10 \<or> overlap \<ge> 6 / 10 \<or> (jaccard \<ge> 2 / 10 \<and> overlap \<ge> 45 / 100))"

definition finalStep ::
  "NewsItem list \<times> string list list \<Rightarrow> NewsItem \<Rightarrow> NewsItem list \<times> string list list" where
  "finalStep st x =
     (case st of (result, resultWords) \<Rightarrow>
        (let words = extractSignificantWords (title x);
             isDuplicate =
               list_ex (\<lambda>idx. finalDuplicate words (resultWords ! idx)) [0..<length result]
         in if \<not> isDuplicate then (result @ [x], resultWords @ [words])
            else (result, resultWords)))"

definition finalDedup :: "NewsItem list \<Rightarrow> NewsItem list" where
  "finalDedup items =
     (if length items = 0 then [] else fst (foldl finalStep ([], []) items))"

text \<open>The duplicate predicate of the final pass as the specification words it.\<close>

definition finalPredicate :: "string set \<Rightarrow> string set \<Rightarrow> bool" where
  "finalPredicate A B =
     (Jaccard A B \<ge> 3 / 10 \<or> Overlap A B \<ge> 6 / 10
      \<or> (Jaccard A B \<ge> 2 / 10 \<and> Overlap A B \<ge> 45 / 100))"

definition significantWordSet :: "NewsItem \<Rightarrow> string set" where
  "significantWordSet x = set (extractSignificantWords (title x))"

section \<open>Relevance scorer (popularity.ts)\<close>

definition STOP_WORDS :: "string list" where
  "STOP_WORDS =
    [''a'', ''an'', ''the'', ''is'', ''are'', ''was'', ''were'', ''be'', ''been'', ''being'',
     ''have'', ''has'', ''had'', ''do'', ''does'', ''did'', ''will'', ''would'', ''could'',
     ''should'', ''may'', ''might'', ''shall'', ''can'', ''need'', ''dare'', ''ought'',
     ''used'', ''to'', ''of'', ''in'', ''for'', ''on'', ''with'', ''at'', ''by'', ''from'',
     ''as'', ''into'', ''through'', ''during'', ''before'', ''after'', ''above'', ''below'',
     ''between'', ''out'', ''off'', ''over'', ''under'', ''again'', ''further'', ''then'',
     ''once'', ''and'', ''but'', ''or'', ''nor'', ''not'', ''so'', ''yet'', ''both'',
     ''either'', ''neither'', ''each'', ''every'', ''all'', ''any'', ''few'', ''more'',
     ''most'', ''other'', ''some'', ''such'', ''no'', ''only'', ''own'', ''same'', ''than'',
     ''too'', ''very'', ''just'', ''because'', ''about'', ''up'', ''it'', ''its'', ''this'',
     ''that'', ''these'', ''those'', ''he'', ''she'', ''they'', ''we'', ''you'', ''i'', ''me'',
     ''my'', ''your'', ''his'', ''her'', ''their'', ''our'', ''what'', ''which'', ''who'',
     ''when'', ''where'', ''why'', ''how'', ''if'', ''while'', ''new'', ''says'', ''said'',
     ''de'', ''da'', ''do'', ''dos'', ''das'', ''em'', ''no'', ''na'', ''nos'', ''nas'',
     ''um'', ''uma'', ''uns'', ''umas'', ''por'', ''para'', ''com'', ''sem'', ''sob'',
     ''sobre'', ''entre'', ''que'', ''se'', ''mais'', ''mas'', ''como'', ''seu'', ''sua'',
     ''seus'', ''suas'', ''ele'', ''ela'', ''eles'', ''elas'', ''isso'', ''isto'',
     ''aquilo'', ''este'', ''esta'', ''esse'', ''essa'', [CHR ''j'', CHR 0xE1], ''ainda'',
     [CHR ''t'', CHR ''a'', CHR ''m'', CHR ''b'', CHR 0xE9, CHR ''m''],
     ''foi'', ''ser'', ''ter'', [CHR ''e'', CHR ''s'', CHR ''t'', CHR 0xE1],
     [CHR ''s'', CHR 0xE3, CHR ''o''], ''tem'', ''vai'', ''pode'', ''diz'',
     [CHR ''a'', CHR ''p'', CHR 0xF3, CHR ''s''], ''ano'', ''dia'', ''vez'',
     [CHR ''a'', CHR ''t'', CHR 0xE9], [CHR ''n'', CHR 0xE3, CHR ''o''], [CHR ''h'', CHR 0xE1]]"

definition extractKeywords :: "string \<Rightarrow> string list" where
  "extractKeywords txt =
     filter (\<lambda>w. length w > 2 \<and> \<not> has STOP_WORDS w)
       (splitWhitespace (stripNonAlphabet (toLowerCase txt)))"

text \<open>\<open>m.get(k) || 0\<close> on a \<open>Map\<close> with numeric values.\<close>

definition getOr0 :: "('k \<rightharpoonup> 'v::zero) \<Rightarrow> 'k \<Rightarrow> 'v" where
  "getOr0 m k = (case m k of None \<Rightarrow> 0 | Some v \<Rightarrow> v)"

subsection \<open>Cross-feed score\<close>

text \<open>One round of the inner loop over \<open>j\<close>; the state is \<open>crossCount\<close> and the set
  \<open>matchedSources\<close>.\<close>

definition crossFeedInner ::
  "NewsItem list \<Rightarrow> nat \<Rightarrow> string list \<Rightarrow> nat \<times> string list \<Rightarrow> nat \<Rightarrow> nat \<times> string list" where
  "crossFeedInner items i kwA st j =
     (case st of (crossCount, matchedSources) \<Rightarrow>
        if i = j \<or> source (items ! j) = source (items ! i) then (crossCount, matchedSources)
        else if has matchedSources (source (items ! j)) then (crossCount, matchedSources)
        else (let kwB = extractKeywords (title (items ! j));
                  overlap = length (filter (has kwA) kwB);
                  similarity = (if length kwA > 0
                                then of_nat overlap / of_nat (length kwA) else (0::real))
              in if similarity \<ge> 4 / 10
                 then (crossCount + 1, setAdd matchedSources (source (items ! j)))
                 else (crossCount, matchedSources)))"

definition crossFeedTier :: "nat \<Rightarrow> int" where
  "crossFeedTier crossCount =
     (if crossCount \<ge> 3 then 50 else if crossCount \<ge> 2 then 40
      else if crossCount \<ge> 1 then 30 else 0)"

definition crossFeedScoreAt :: "NewsItem list \<Rightarrow> nat \<Rightarrow> int" where
  "crossFeedScoreAt items i =
     (let kwA = newSet (extractKeywords (title (items ! i)));
          st = foldl (crossFeedInner items i kwA) (0, setAdd [] (source (items ! i)))
                 [0..<length items]
      in crossFeedTier (fst st))"

definition computeCrossFeedScores :: "NewsItem list \<Rightarrow> (nat \<rightharpoonup> int)" where
  "computeCrossFeedScores items =
     foldl (\<lambda>scores i. scores(i \<mapsto> crossFeedScoreAt items i)) Map.empty [0..<length items]"

text \<open>The cross-feed rule read with keyword sets on both sides: the share of the
  keywords of \<open>a\<close> that also occur among the keywords of \<open>b\<close>.\<close>

definition sharedKeywordRatio :: "NewsItem \<Rightarrow> NewsItem \<Rightarrow> real" where
  "sharedKeywordRatio a b =
     (let A = set (extractKeywords (title a)); B = set (extractKeywords (title b))
      in if A = {} then 0 else of_nat (card (A \<inter> B)) / of_nat (card A))"

text \<open>What the loop divides: the number of keyword occurrences in the title of \<open>b\<close>,
  repetitions included, that belong to the keyword set of \<open>a\<close>, over the size of that
  set.\<close>

definition keywordHitRatio :: "NewsItem \<Rightarrow> NewsItem \<Rightarrow> real" where
  "keywordHitRatio a b =
     (let A = set (extractKeywords (title a))
      in if A = {} then 0
         else of_nat (length (filter (\<lambda>w. w \<in> A) (extractKeywords (title b)))) / of_nat (card A))"

text \<open>The distinct sources, other than the source of \<open>a\<close>, that hold a document whose
  ratio against \<open>a\<close> reaches 0.4.\<close>

definition corroboratingSources ::
  "(NewsItem \<Rightarrow> NewsItem \<Rightarrow> real) \<Rightarrow> NewsItem list \<Rightarrow> NewsItem \<Rightarrow> string set" where
  "corroboratingSources ratio items a =
     set (map source (filter (\<lambda>b. source b \<noteq> source a \<and> ratio a b \<ge> 4 / 10) items))"

subsection \<open>Trending score\<close>





subsection \<open>Recency score\<close>

text \<open>The age in hours of a document published \<open>ageMs\<close> milliseconds before \<open>now\<close>:
  the subtraction \<open>now - publishedAt.getTime()\<close> and the division by
  \<open>1000 * 60 * 60\<close>, each rounded to a double. Then the score the loop body gives the
  document: a division, a subtraction and a multiplication in doubles, \<open>Math.max\<close> and
  \<open>Math.round\<close>.\<close>

definition ageHoursOf :: "int \<Rightarrow> real" where
  "ageHoursOf ageMs = toDouble (toDouble (of_int ageMs) / (1000 * 60 * 60))"

definition recencyOfAge :: "int \<Rightarrow> int" where
  "recencyOfAge ageMs =
     (let ageHours = ageHoursOf ageMs;
          score = max 0 (toDouble (20 * toDouble (1 - toDouble (ageHours / 24))))
      in mathRound score)"


subsection \<open>Social score\<close>






subsection \<open>The pipeline\<close>








section \<open>Ranker (ranker.ts)\<close>

text \<open>The cache file on disk: absent; present but unreadable; readable but not JSON;
  a record of URLs with a numeric time stamp; a record of URLs whose time stamp is
  absent or does not convert to a number, so that \<open>Date.now() - data.timestamp\<close> is
  \<open>NaN\<close> and the comparison with 48 hours is false. \<open>readRecord\<close> is
  \<open>readFileSync\<close> followed by \<open>JSON.parse\<close> and the reading of the two fields; the
  \<open>catch\<close> of \<open>loadSentCache\<close> receives either error.\<close>

datatype cacheFile =
  NoFile | Unreadable | Malformed | Stored "string list" int | Undated "string list"

datatype ioError = ReadError | ParseError

fun existsSync :: "cacheFile \<Rightarrow> bool" where
  "existsSync NoFile = False"
| "existsSync _ = True"

fun readRecord :: "cacheFile \<Rightarrow> ioError + string list \<times> int option" where
  "readRecord (Stored urls timestamp) = Inr (urls, Some timestamp)"
| "readRecord (Undated urls) = Inr (urls, None)"
| "readRecord Malformed = Inl ParseError"
| "readRecord _ = Inl ReadError"

definition loadSentCache :: "cacheFile \<Rightarrow> int \<Rightarrow> string list" where
  "loadSentCache f now =
     (if existsSync f
      then (case readRecord f of
              Inl err \<Rightarrow> []
            | Inr (urls, timestamp) \<Rightarrow>
                if (case timestamp of Some t \<Rightarrow> now - t > 48 * 60 * 60 * 1000 | None \<Rightarrow> False)
                then [] else newSet urls)
      else [])"

definition saveSentCache :: "bool \<Rightarrow> int \<Rightarrow> string list \<Rightarrow> cacheFile \<Rightarrow> cacheFile" where
  "saveSentCache ok now urls f = (if ok then Stored urls now else f)"

definition normalizeUrl :: "string \<Rightarrow> string" where
  "normalizeUrl url = toLowerCase (rev (dropWhile (\<lambda>c. c = CHR ''/'') (rev url)))"

fun diversifiedLoop ::
  "int \<Rightarrow> nat \<Rightarrow> NewsItem list \<Rightarrow> (string \<rightharpoonup> nat) \<Rightarrow> NewsItem list \<Rightarrow> NewsItem list" where
  "diversifiedLoop maxItems maxPerSource result sourceCount [] = result"
| "diversifiedLoop maxItems maxPerSource result sourceCount (x # rest) =
     (if int (length result) \<ge> maxItems then result
      else (let count = getOr0 sourceCount (source x)
            in if count \<ge> maxPerSource
               then diversifiedLoop maxItems maxPerSource result sourceCount rest
               else diversifiedLoop maxItems maxPerSource (result @ [x])
                      (sourceCount(source x \<mapsto> count + 1)) rest))"

definition diversifiedPick :: "NewsItem list \<Rightarrow> int \<Rightarrow> nat \<Rightarrow> NewsItem list" where
  "diversifiedPick sortedItems maxItems maxPerSource =
     diversifiedLoop maxItems maxPerSource [] Map.empty sortedItems"

text \<open>The environment of one call of \<open>rankNews\<close>: the cache file, the three readings
  of the clock (in \<open>rankNews\<close>, in \<open>loadSentCache\<close>, in \<open>saveSentCache\<close>) and whether
  the file can be written.\<close>

record world =
  cache :: cacheFile
  tNow :: int
  tLoad :: int
  tSave :: int
  writable :: bool

text \<open>The predicate of the filter of \<open>rankNews\<close>.\<close>

definition keepItem :: "int \<Rightarrow> string list \<Rightarrow> int \<Rightarrow> NewsItem \<Rightarrow> bool" where
  "keepItem now sentCache maxAgeHours x =
     (let normalized = normalizeUrl (link x)
      in if has sentCache normalized then False
         else (let ageHours = ageHoursOf (now - publishedAt x)
               in if ageHours > of_int maxAgeHours then False
                  else if link x = [] then False
                  else True))"

definition rankNews :: "world \<Rightarrow> NewsItem list \<Rightarrow> int \<Rightarrow> int \<Rightarrow> NewsItem list \<times> cacheFile" where
  "rankNews w items maxItems maxAgeHours =
     (let now = tNow w;
          sentCache = loadSentCache (cache w) (tLoad w);
          filtered = filter (keepItem now sentCache maxAgeHours) items;
          unique = deduplicateBySimilarity filtered;
          sortedItems = sortByScoreDesc unique;
          topItems = diversifiedPick sortedItems maxItems 3;
          sentCache' = foldl setAdd sentCache (map (\<lambda>x. normalizeUrl (link x)) topItems)
      in (topItems, saveSentCache (writable w) (tSave w) sentCache' (cache w)))"

text \<open>A document as the fetchers create it: no description, score 0 and the default
  breakdown.\<close>

definition DEFAULT_BREAKDOWN :: ScoreBreakdown where
  "DEFAULT_BREAKDOWN = \<lparr>crossFeedScore = 0, recencyScore = 0, trendingScore = 0,
     socialScore = 0, totalScore = 0\<rparr>"

definition fetched :: "string \<Rightarrow> string \<Rightarrow> string \<Rightarrow> int \<Rightarrow> NewsItem" where
  "fetched t l s p = \<lparr>title = t, link = l, source = s, publishedAt = p,
     description = [], relevanceScore = 0, scoreBreakdown = DEFAULT_BREAKDOWN\<rparr>"

section \<open>Vocabulary of the proofs\<close>

text \<open>Both deduplication loops keep an item unless an item kept before it is a
  duplicate of it; \<open>keepUnless\<close> is that step on the array of kept items alone.\<close>

definition keepUnless :: "('a \<Rightarrow> 'a \<Rightarrow> bool) \<Rightarrow> 'a list \<Rightarrow> 'a \<Rightarrow> 'a list" where
  "keepUnless dup kept x = (if list_ex (dup x) kept then kept else kept @ [x])"

definition similarTitles :: "NewsItem \<Rightarrow> NewsItem \<Rightarrow> bool" where
  "similarTitles x k = areSimilar (title x) (title k)"

definition finalDuplicateItems :: "NewsItem \<Rightarrow> NewsItem \<Rightarrow> bool" where
  "finalDuplicateItems x k =
     finalDuplicate (extractSignificantWords (title x)) (extractSignificantWords (title k))"

definition noLaterDuplicate :: "('a \<Rightarrow> 'a \<Rightarrow> bool) \<Rightarrow> 'a list \<Rightarrow> bool" where
  "noLaterDuplicate dup ys = (\<forall>j < length ys. \<forall>i < j. \<not> dup (ys ! j) (ys ! i))"

text \<open>One round of the inner cross-feed loop, on the document \<open>b\<close> visited instead of
  its index.\<close>

definition crossFeedVisit ::
  "NewsItem \<Rightarrow> string list \<Rightarrow> nat \<times> string list \<Rightarrow> NewsItem \<Rightarrow> nat \<times> string list" where
  "crossFeedVisit a kwA st b =
     (case st of (crossCount, matchedSources) \<Rightarrow>
        if source b = source a then (crossCount, matchedSources)
        else if has matchedSources (source b) then (crossCount, matchedSources)
        else if keywordHitRatio a b \<ge> 4 / 10
             then (crossCount + 1, setAdd matchedSources (source b))
             else (crossCount, matchedSources))"


section \<open>Example documents\<close>

definition docTariffs :: NewsItem where
  "docTariffs = fetched ''Trump announces new tariffs on China imports''
     ''https://a.example/1'' ''Reuters'' 0"

definition docTariffsShort :: NewsItem where
  "docTariffsShort = fetched ''Trump announces tariffs on China''
     ''https://b.example/2'' ''BBC'' 0"

definition docFinal :: NewsItem where
  "docFinal = fetched ''Local team wins championship final''
     ''https://c.example/3'' ''ESPN'' 0"

definition docFuture :: NewsItem where
  "docFuture = fetched ''Rocket launch scheduled'' ''https://d.example/4'' ''Wire'' 4320000"

text \<open>Three environments: no cache file; a record written 49 hours before the call; a
  record written one hour before the call.\<close>

definition quietWorld :: world where
  "quietWorld = \<lparr>cache = NoFile, tNow = 0, tLoad = 0, tSave = 0, writable = True\<rparr>"


definition freshWorld :: world where
  "freshWorld = \<lparr>cache = Stored [''https://a.example/1''] 0, tNow = 3600000,
     tLoad = 3600000, tSave = 3600000, writable = True\<rparr>"


text \<open>A document whose link differs from the stored URL in case and by a trailing
  slash.\<close>

definition docRecent :: "int \<Rightarrow> NewsItem" where
  "docRecent t = fetched ''Trump announces new tariffs on China imports''
     ''https://A.example/1/'' ''Reuters'' t"

text \<open>Two titles that share the keyword "bill", which the second one repeats.\<close>

definition docSenate :: NewsItem where
  "docSenate = fetched ''Senate passes budget bill after debate''
     ''https://a.example/5'' ''Reuters'' 0"

definition docGates :: NewsItem where
  "docGates = fetched ''Bill Gates backs climate bill''
     ''https://b.example/6'' ''BBC'' 0"


section \<open>Sets and the two metrics\<close>

lemma set_foldl_setAdd: "set (foldl setAdd acc xs) = set acc \<union> set xs"
  by (induction xs arbitrary: acc) (auto simp: setAdd_def)

lemma distinct_foldl_setAdd: "distinct acc \<Longrightarrow> distinct (foldl setAdd acc xs)"
  by (induction xs arbitrary: acc) (auto simp: setAdd_def)

lemma set_newSet [simp]: "set (newSet xs) = set xs"
  by (simp add: newSet_def set_foldl_setAdd)

lemma distinct_newSet [simp]: "distinct (newSet xs)"
  by (simp add: newSet_def distinct_foldl_setAdd)

lemma length_newSet: "length (newSet xs) = card (set xs)"
  using distinct_card [OF distinct_newSet, of xs] by simp

lemma newSet_eq_Nil [simp]: "(newSet xs = []) = (xs = [])"
  using set_newSet [of xs] by (metis set_empty)

lemma length_filter_has:
  assumes "distinct s"
  shows "length (filter (has t) s) = card (set s \<inter> set t)"
proof -
  have "distinct (filter (has t) s)" using assms by simp
  then have "card (set (filter (has t) s)) = length (filter (has t) s)"
    by (rule distinct_card)
  moreover have "set (filter (has t) s) = set s \<inter> set t"
    by (auto simp: has_def)
  ultimately show ?thesis by simp
qed

lemma jaccardSimilarity_Jaccard:
  "jaccardSimilarity wordsA wordsB = Jaccard (set wordsA) (set wordsB)"
proof (cases "wordsA = [] \<or> wordsB = []")
  case True
  then show ?thesis
    by (auto simp: jaccardSimilarity_def Jaccard_def length_newSet Let_def)
next
  case False
  then have ne: "set wordsA \<noteq> {}" "set wordsB \<noteq> {}" by auto
  then have "card (set wordsA \<union> set wordsB) > 0"
    by (simp add: card_gt_0_iff)
  with ne show ?thesis
    by (simp add: jaccardSimilarity_def Jaccard_def length_newSet Let_def length_filter_has)
qed

lemma overlapCoefficient_Overlap:
  "overlapCoefficient wordsA wordsB = Overlap (set wordsA) (set wordsB)"
  by (simp add: overlapCoefficient_def Overlap_def length_newSet Let_def length_filter_has)

lemma Jaccard_self: "A \<noteq> {} \<Longrightarrow> finite A \<Longrightarrow> Jaccard A A = 1"
  by (simp add: Jaccard_def card_gt_0_iff)

lemmas tokenizer_defs =
  extractSignificantWords_def normalizeTitle_def trim_def toLowerCase_def
  stripNonAlphabet_def upperLetters_def lowerLetters_def isSpace_def inAlphabet_def
  alphabetLower_def alphabetUpper_def has_def DEDUP_STOP_WORDS_def

section \<open>Identical titles\<close>

text \<open>
  C2, as amended. \<open>areSimilar\<close> applied to a title and itself returns true exactly
  when the title has at least one significant word; one or two significant words are
  enough. A title without significant words is not similar to itself, because the
  Jaccard similarity of two empty word sets is 0.
\<close>

theorem areSimilar_same_title:
  "areSimilar t t = (extractSignificantWords t \<noteq> [])"
proof (cases "extractSignificantWords t = []")
  case True
  then show ?thesis
    by (simp add: areSimilar_def jaccardSimilarity_Jaccard Jaccard_def)
next
  case False
  then have "Jaccard (set (extractSignificantWords t)) (set (extractSignificantWords t)) = 1"
    by (simp add: Jaccard_self)
  with False show ?thesis
    by (simp add: areSimilar_def jaccardSimilarity_Jaccard Let_def)
qed

theorem areSimilar_same_title_witness:
  "extractSignificantWords ''Trump tariffs'' = [''trump'', ''tariffs'']
   \<and> areSimilar ''Trump tariffs'' ''Trump tariffs''"
  using areSimilar_same_title [of "''Trump tariffs''"] by (simp add: tokenizer_defs)

text \<open>
  C2 as stated fails: the title "What is AI?" consists of stop words and of a word of
  two letters, so its significant-word set is empty and it is not similar to itself.
\<close>

theorem areSimilar_identical_titles_counterexample:
  "\<not> areSimilar ''What is AI?'' ''What is AI?''"
  by (simp add: areSimilar_def jaccardSimilarity_def newSet_def tokenizer_defs)

section \<open>The decision surface of \<open>areSimilar\<close>\<close>

text \<open>
  C4. The metrics computed by \<open>jaccardSimilarity\<close> and \<open>overlapCoefficient\<close> are
  Jaccard and Overlap of the deduplicated significant-word sets, both 0 when either set
  is empty. When either title has at most 2 significant words (counted in the word
  sequence), \<open>areSimilar\<close> returns true iff Jaccard is at least 0.6; otherwise it
  returns true iff Jaccard is at least 0.35, or Overlap is at least 0.65, or Jaccard is
  at least 0.25 and Overlap at least 0.5.
\<close>

theorem areSimilar_surface:
  "jaccardSimilarity wa wb = Jaccard (set wa) (set wb) \<and>
   overlapCoefficient wa wb = Overlap (set wa) (set wb) \<and>
   jaccardSimilarity [] wb = 0 \<and> jaccardSimilarity wa [] = 0 \<and>
   overlapCoefficient [] wb = 0 \<and> overlapCoefficient wa [] = 0 \<and>
   areSimilar titleA titleB =
     (let A = set (extractSignificantWords titleA); B = set (extractSignificantWords titleB)
      in if length (extractSignificantWords titleA) \<le> 2
            \<or> length (extractSignificantWords titleB) \<le> 2
         then Jaccard A B \<ge> 6 / 10
         else Jaccard A B \<ge> 35 / 100 \<or> Overlap A B \<ge> 65 / 100
              \<or> (Jaccard A B \<ge> 25 / 100 \<and> Overlap A B \<ge> 5 / 10))"
  by (simp add: areSimilar_def Let_def jaccardSimilarity_Jaccard overlapCoefficient_Overlap
      Jaccard_def Overlap_def)

section \<open>The deduplication passes\<close>

lemma similarTitles_fun: "similarTitles x = (\<lambda>k. areSimilar (title x) (title k))"
  by (simp add: fun_eq_iff similarTitles_def)

lemma finalDuplicateItems_fun:
  "finalDuplicateItems x =
     (\<lambda>k. finalDuplicate (extractSignificantWords (title x)) (extractSignificantWords (title k)))"
  by (simp add: fun_eq_iff finalDuplicateItems_def)

lemma list_ex_indices: "list_ex (\<lambda>idx. P (xs ! idx)) [0..<length xs] = list_ex P xs"
  by (force simp: list_ex_iff in_set_conv_nth)

lemma dedupStep_keepUnless:
  "dedupStep (kept, map (\<lambda>k. extractSignificantWords (title k)) kept) x =
     (keepUnless similarTitles kept x,
      map (\<lambda>k. extractSignificantWords (title k)) (keepUnless similarTitles kept x))"
  using list_ex_indices [of "\<lambda>k. areSimilar (title x) (title k)" kept]
  by (simp add: dedupStep_def keepUnless_def similarTitles_fun Let_def)

lemma foldl_dedupStep:
  "foldl dedupStep (kept, map (\<lambda>k. extractSignificantWords (title k)) kept) xs =
     (foldl (keepUnless similarTitles) kept xs,
      map (\<lambda>k. extractSignificantWords (title k)) (foldl (keepUnless similarTitles) kept xs))"
  by (induction xs arbitrary: kept) (simp_all add: dedupStep_keepUnless)

lemma list_ex_indices_map:
  "list_ex (\<lambda>idx. P (map W xs ! idx)) [0..<length xs] = list_ex (\<lambda>k. P (W k)) xs"
  by (force simp: list_ex_iff in_set_conv_nth)

lemma finalStep_keepUnless:
  "finalStep (res, map (\<lambda>k. extractSignificantWords (title k)) res) x =
     (keepUnless finalDuplicateItems res x,
      map (\<lambda>k. extractSignificantWords (title k)) (keepUnless finalDuplicateItems res x))"
  using list_ex_indices_map [of "finalDuplicate (extractSignificantWords (title x))"
      "\<lambda>k. extractSignificantWords (title k)" res]
  by (simp add: finalStep_def keepUnless_def finalDuplicateItems_fun Let_def)

lemma foldl_finalStep:
  "foldl finalStep (res, map (\<lambda>k. extractSignificantWords (title k)) res) xs =
     (foldl (keepUnless finalDuplicateItems) res xs,
      map (\<lambda>k. extractSignificantWords (title k)) (foldl (keepUnless finalDuplicateItems) res xs))"
  by (induction xs arbitrary: res) (simp_all add: finalStep_keepUnless)

lemma finalDedup_greedy: "finalDedup xs = foldl (keepUnless finalDuplicateItems) [] xs"
  using foldl_finalStep [of "[]" xs] by (simp add: finalDedup_def)

lemma deduplicateBySimilarity_greedy:
  "deduplicateBySimilarity xs = foldl (keepUnless similarTitles) [] (sortByScoreDesc xs)"
  using foldl_dedupStep [of "[]" "sortByScoreDesc xs"]
  by (auto simp: deduplicateBySimilarity_def sortByScoreDesc_def)

lemma greedy_subseq: "subseq (foldl (keepUnless dup) acc xs) (acc @ xs)"
proof (induction xs arbitrary: acc)
  case Nil
  show ?case by simp
next
  case (Cons x xs)
  have "subseq (keepUnless dup acc x @ xs) (acc @ x # xs)"
    by (simp add: keepUnless_def subseq_append' list_emb_Cons)
  with Cons [of "keepUnless dup acc x"] show ?case
    by (metis foldl_Cons subseq_order.trans)
qed

lemma greedy_fixed:
  "foldl (keepUnless dup) [] acc = acc \<Longrightarrow>
   foldl (keepUnless dup) [] (foldl (keepUnless dup) acc xs) = foldl (keepUnless dup) acc xs"
proof (induction xs arbitrary: acc)
  case Nil
  then show ?case by simp
next
  case (Cons x xs)
  have "foldl (keepUnless dup) [] (keepUnless dup acc x) = keepUnless dup acc x"
  proof (cases "list_ex (dup x) acc")
    case True
    then have "keepUnless dup acc x = acc" by (simp add: keepUnless_def)
    then show ?thesis using Cons.prems by simp
  next
    case False
    then have eq: "keepUnless dup acc x = acc @ [x]" by (simp add: keepUnless_def)
    have "foldl (keepUnless dup) [] (acc @ [x]) = keepUnless dup acc x"
      using Cons.prems by simp
    then show ?thesis using eq by simp
  qed
  then show ?case using Cons.IH by simp
qed

lemma greedy_idempotent:
  "foldl (keepUnless dup) [] (foldl (keepUnless dup) [] xs) = foldl (keepUnless dup) [] xs"
  by (rule greedy_fixed) simp

lemma greedy_sorted:
  "sorted (map f (acc @ xs)) \<Longrightarrow> sorted (map f (foldl (keepUnless dup) acc xs))"
proof (induction xs arbitrary: acc)
  case Nil
  then show ?case by simp
next
  case (Cons x xs)
  have "sorted (map f (keepUnless dup acc x @ xs))"
    using Cons.prems by (auto simp: keepUnless_def sorted_append)
  then show ?case using Cons.IH by simp
qed

lemma greedy_no_duplicate:
  "noLaterDuplicate dup acc \<Longrightarrow> noLaterDuplicate dup (foldl (keepUnless dup) acc xs)"
proof (induction xs arbitrary: acc)
  case Nil
  then show ?case by simp
next
  case (Cons x xs)
  have "noLaterDuplicate dup (keepUnless dup acc x)"
  proof (cases "list_ex (dup x) acc")
    case True
    then show ?thesis using Cons.prems by (simp add: keepUnless_def)
  next
    case False
    then have nd: "\<forall>i < length acc. \<not> dup x (acc ! i)"
      by (auto simp: list_ex_iff)
    show ?thesis
      unfolding noLaterDuplicate_def
    proof (intro allI impI)
      fix j i assume j: "j < length (keepUnless dup acc x)" and i: "i < j"
      show "\<not> dup (keepUnless dup acc x ! j) (keepUnless dup acc x ! i)"
      proof (cases "j < length acc")
        case True
        with i Cons.prems False show ?thesis
          by (simp add: keepUnless_def noLaterDuplicate_def nth_append)
      next
        case False
        with j \<open>\<not> list_ex (dup x) acc\<close> have "j = length acc"
          by (simp add: keepUnless_def)
        with i nd \<open>\<not> list_ex (dup x) acc\<close> show ?thesis
          by (simp add: keepUnless_def nth_append)
      qed
    qed
  qed
  then show ?case using Cons.IH by simp
qed

lemma sortByScoreDesc_sorted: "sorted (map (\<lambda>x. - relevanceScore x) (sortByScoreDesc xs))"
  by (simp add: sortByScoreDesc_def)

lemma deduplicateBySimilarity_sorted:
  "sortByScoreDesc (deduplicateBySimilarity xs) = deduplicateBySimilarity xs"
proof -
  have "sorted (map (\<lambda>x. - relevanceScore x) (deduplicateBySimilarity xs))"
    unfolding deduplicateBySimilarity_greedy
    by (rule greedy_sorted) (simp add: sortByScoreDesc_sorted)
  then show ?thesis
    unfolding sortByScoreDesc_def by (rule sort_key_id_if_sorted)
qed

lemma deduplicateBySimilarity_idem:
  "deduplicateBySimilarity (deduplicateBySimilarity xs) = deduplicateBySimilarity xs"
proof -
  have "deduplicateBySimilarity (deduplicateBySimilarity xs) =
        foldl (keepUnless similarTitles) [] (deduplicateBySimilarity xs)"
    by (simp add: deduplicateBySimilarity_greedy [of "deduplicateBySimilarity xs"]
        deduplicateBySimilarity_sorted)
  also have "\<dots> = deduplicateBySimilarity xs"
    by (simp add: deduplicateBySimilarity_greedy greedy_idempotent)
  finally show ?thesis .
qed

lemma finalDedup_idem: "finalDedup (finalDedup xs) = finalDedup xs"
  by (simp add: finalDedup_greedy greedy_idempotent)

lemma Jaccard_sym: "Jaccard A B = Jaccard B A"
  by (auto simp: Jaccard_def Int_commute Un_commute)

lemma Overlap_sym: "Overlap A B = Overlap B A"
  by (auto simp: Overlap_def Int_commute min.commute)

lemma areSimilar_sym: "areSimilar a b = areSimilar b a"
  by (auto simp: areSimilar_def Let_def jaccardSimilarity_Jaccard overlapCoefficient_Overlap
      Jaccard_sym [of "set (extractSignificantWords a)"] Overlap_sym [of "set (extractSignificantWords a)"])

lemma finalDuplicate_finalPredicate:
  "finalDuplicate wa wb = finalPredicate (set wa) (set wb)"
  by (simp add: finalDuplicate_def finalPredicate_def Let_def jaccardSimilarity_Jaccard
      overlapCoefficient_Overlap)

lemma finalPredicate_sym: "finalPredicate A B = finalPredicate B A"
  by (simp add: finalPredicate_def Jaccard_sym [of A] Overlap_sym [of A])

lemma noLaterDuplicate_sym:
  assumes "noLaterDuplicate dup ys" and "\<And>a b. dup a b = dup b a"
    and "i < length ys" and "j < length ys" and "i \<noteq> j"
  shows "\<not> dup (ys ! i) (ys ! j)"
proof (cases "i < j")
  case True
  then have "\<not> dup (ys ! j) (ys ! i)"
    using assms(1,4) by (simp add: noLaterDuplicate_def)
  then show ?thesis using assms(2) by simp
next
  case False
  then have "j < i" using assms(5) by simp
  then show ?thesis
    using assms(1,3) by (simp add: noLaterDuplicate_def)
qed

lemma deduplicateBySimilarity_no_duplicate:
  "noLaterDuplicate similarTitles (deduplicateBySimilarity xs)"
  unfolding deduplicateBySimilarity_greedy
  by (rule greedy_no_duplicate) (simp add: noLaterDuplicate_def)

lemma finalDedup_no_duplicate: "noLaterDuplicate finalDuplicateItems (finalDedup xs)"
  unfolding finalDedup_greedy
  by (rule greedy_no_duplicate) (simp add: noLaterDuplicate_def)

lemma similarTitles_sym: "similarTitles a b = similarTitles b a"
  using areSimilar_sym [of "title a" "title b"] by (simp add: similarTitles_def)

lemma finalDuplicateItems_finalPredicate:
  "finalDuplicateItems a b = finalPredicate (significantWordSet a) (significantWordSet b)"
  by (simp add: finalDuplicateItems_def finalDuplicate_finalPredicate significantWordSet_def)

lemma finalDuplicateItems_sym: "finalDuplicateItems a b = finalDuplicateItems b a"
  using finalPredicate_sym [of "significantWordSet a" "significantWordSet b"]
  by (simp add: finalDuplicateItems_finalPredicate)

subsection \<open>The passes on the example documents\<close>

lemma words_docTariffs:
  "extractSignificantWords (title docTariffs) =
     [''trump'', ''announces'', ''tariffs'', ''china'', ''imports'']"
  by (simp add: tokenizer_defs docTariffs_def fetched_def)

lemma words_docTariffsShort:
  "extractSignificantWords (title docTariffsShort) =
     [''trump'', ''announces'', ''tariffs'', ''china'']"
  by (simp add: tokenizer_defs docTariffsShort_def fetched_def)

lemma words_docFinal:
  "extractSignificantWords (title docFinal) =
     [''local'', ''team'', ''wins'', ''championship'', ''final'']"
  by (simp add: tokenizer_defs docFinal_def fetched_def)

lemmas metric_defs = jaccardSimilarity_def overlapCoefficient_def newSet_def setAdd_def has_def

lemma finalDuplicateItems_short_long: "finalDuplicateItems docTariffsShort docTariffs"
  by (simp add: finalDuplicateItems_def finalDuplicate_def
      words_docTariffs words_docTariffsShort metric_defs)

lemma finalDuplicateItems_final_long: "\<not> finalDuplicateItems docFinal docTariffs"
  by (simp add: finalDuplicateItems_def finalDuplicate_def
      words_docTariffs words_docFinal metric_defs)

lemma finalDedup_examples:
  "finalDedup [docTariffs, docTariffsShort, docFinal] = [docTariffs, docFinal]"
  "finalDedup [docTariffs, docTariffsShort] = [docTariffs]"
  by (simp_all add: finalDedup_greedy keepUnless_def
      finalDuplicateItems_short_long finalDuplicateItems_final_long)

lemma similarTitles_short_long: "similarTitles docTariffsShort docTariffs"
  by (simp add: similarTitles_def areSimilar_def
      words_docTariffs words_docTariffsShort metric_defs)

lemma similarTitles_final_long: "\<not> similarTitles docFinal docTariffs"
  by (simp add: similarTitles_def areSimilar_def words_docTariffs words_docFinal metric_defs)

lemma sortByScoreDesc_examples:
  "sortByScoreDesc [docTariffs, docTariffsShort, docFinal] =
     [docTariffs, docTariffsShort, docFinal]"
  by (simp add: sortByScoreDesc_def docTariffs_def docTariffsShort_def docFinal_def fetched_def)

lemma deduplicateBySimilarity_examples:
  "deduplicateBySimilarity [docTariffs, docTariffsShort, docFinal] = [docTariffs, docFinal]"
  by (simp add: deduplicateBySimilarity_greedy sortByScoreDesc_examples keepUnless_def
      similarTitles_short_long similarTitles_final_long)

text \<open>
  C3. Both deduplication passes are idempotent: \<open>deduplicateBySimilarity\<close> and
  \<open>finalDedup\<close> return their own output unchanged, and no two items at different
  positions of the output of a pass satisfy the duplicate predicate of that pass
  (\<open>areSimilar\<close> on the titles; the thresholds of the final pass on the
  significant-word sets) against each other.
\<close>

theorem dedup_passes_idempotent:
  "deduplicateBySimilarity (deduplicateBySimilarity x) = deduplicateBySimilarity x
   \<and> finalDedup (finalDedup x) = finalDedup x
   \<and> (\<forall>i j. i < length (deduplicateBySimilarity x) \<and> j < length (deduplicateBySimilarity x)
          \<and> i \<noteq> j \<longrightarrow>
        \<not> areSimilar (title (deduplicateBySimilarity x ! i))
                     (title (deduplicateBySimilarity x ! j)))
   \<and> (\<forall>i j. i < length (finalDedup x) \<and> j < length (finalDedup x) \<and> i \<noteq> j \<longrightarrow>
        \<not> finalPredicate (significantWordSet (finalDedup x ! i))
                         (significantWordSet (finalDedup x ! j)))"
proof (intro conjI allI impI)
  show "deduplicateBySimilarity (deduplicateBySimilarity x) = deduplicateBySimilarity x"
    by (rule deduplicateBySimilarity_idem)
  show "finalDedup (finalDedup x) = finalDedup x"
    by (rule finalDedup_idem)
next
  fix i j
  assume "i < length (deduplicateBySimilarity x) \<and> j < length (deduplicateBySimilarity x) \<and> i \<noteq> j"
  then have "\<not> similarTitles (deduplicateBySimilarity x ! i) (deduplicateBySimilarity x ! j)"
    using noLaterDuplicate_sym [OF deduplicateBySimilarity_no_duplicate similarTitles_sym]
    by blast
  then show "\<not> areSimilar (title (deduplicateBySimilarity x ! i))
                          (title (deduplicateBySimilarity x ! j))"
    by (simp add: similarTitles_def)
next
  fix i j
  assume "i < length (finalDedup x) \<and> j < length (finalDedup x) \<and> i \<noteq> j"
  then have "\<not> finalDuplicateItems (finalDedup x ! i) (finalDedup x ! j)"
    using noLaterDuplicate_sym [OF finalDedup_no_duplicate finalDuplicateItems_sym]
    by blast
  then show "\<not> finalPredicate (significantWordSet (finalDedup x ! i))
                              (significantWordSet (finalDedup x ! j))"
    by (simp add: finalDuplicateItems_finalPredicate)
qed

theorem dedup_passes_idempotent_witness:
  "deduplicateBySimilarity [docTariffs, docFinal] = [docTariffs, docFinal]
   \<and> finalDedup [docTariffs, docFinal] = [docTariffs, docFinal]
   \<and> \<not> areSimilar (title docTariffs) (title docFinal)
   \<and> \<not> finalPredicate (significantWordSet docTariffs) (significantWordSet docFinal)"
proof -
  note idem = dedup_passes_idempotent [of "[docTariffs, docTariffsShort, docFinal]",
      unfolded deduplicateBySimilarity_examples finalDedup_examples]
  have "(0::nat) < length [docTariffs, docFinal] \<and> (1::nat) < length [docTariffs, docFinal]
        \<and> (0::nat) \<noteq> 1"
    by simp
  with idem have
    "\<not> areSimilar (title ([docTariffs, docFinal] ! 0)) (title ([docTariffs, docFinal] ! 1))"
    "\<not> finalPredicate (significantWordSet ([docTariffs, docFinal] ! 0))
                       (significantWordSet ([docTariffs, docFinal] ! 1))"
    by blast+
  with idem show ?thesis by simp
qed

text \<open>
  C7. \<open>finalDedup\<close> returns a subsequence of its input in the input order. It starts
  from the empty list and keeps the next item exactly when no item kept so far
  satisfies, against the significant-word set of that item, Jaccard at least 0.3, or
  Overlap at least 0.6, or Jaccard at least 0.2 together with Overlap at least 0.45.
\<close>

theorem finalDedup_order_preserving:
  "subseq (finalDedup xs) xs
   \<and> finalDedup [] = []
   \<and> finalDedup (xs @ [x]) =
       (if \<exists>k \<in> set (finalDedup xs).
             finalPredicate (significantWordSet x) (significantWordSet k)
        then finalDedup xs else finalDedup xs @ [x])"
proof (intro conjI)
  show "subseq (finalDedup xs) xs"
    using greedy_subseq [of finalDuplicateItems "[]" xs] by (simp add: finalDedup_greedy)
  show "finalDedup [] = []"
    by (simp add: finalDedup_def)
  show "finalDedup (xs @ [x]) =
       (if \<exists>k \<in> set (finalDedup xs).
             finalPredicate (significantWordSet x) (significantWordSet k)
        then finalDedup xs else finalDedup xs @ [x])"
    by (simp add: finalDedup_greedy keepUnless_def list_ex_iff finalDuplicateItems_finalPredicate)
qed

theorem finalDedup_order_preserving_witness:
  "subseq [docTariffs] [docTariffs, docTariffsShort]
   \<and> finalDedup ([docTariffs, docTariffsShort] @ [docFinal]) = [docTariffs] @ [docFinal]
   \<and> \<not> finalPredicate (significantWordSet docFinal) (significantWordSet docTariffs)"
  using finalDedup_order_preserving [of "[docTariffs, docTariffsShort]" docFinal]
    finalDuplicateItems_final_long
  by (simp add: finalDedup_examples finalDuplicateItems_finalPredicate)

section \<open>Double arithmetic\<close>

text \<open>Rounding to the nearest double is monotone, commutes with negation, leaves every
  integer below \<open>2\<^sup>5\<^sup>3\<close> unchanged, and can be evaluated once the binade of the
  argument is known.\<close>

lemma roundHalfEven_cases: "roundHalfEven y = \<lfloor>y\<rfloor> \<or> roundHalfEven y = \<lfloor>y\<rfloor> + 1"
  by (simp add: roundHalfEven_def Let_def)

lemma roundHalfEven_of_int [simp]: "roundHalfEven (of_int n) = n"
  by (simp add: roundHalfEven_def)

lemma roundHalfEven_numeral [simp]: "roundHalfEven (numeral n) = numeral n"
  using roundHalfEven_of_int [of "numeral n"] by simp

lemma roundHalfEven_mono:
  assumes "y \<le> z"
  shows "roundHalfEven y \<le> roundHalfEven z"
proof (cases "\<lfloor>y\<rfloor> < \<lfloor>z\<rfloor>")
  case True
  then show ?thesis
    using roundHalfEven_cases [of y] roundHalfEven_cases [of z] by linarith
next
  case False
  then have eq: "\<lfloor>y\<rfloor> = \<lfloor>z\<rfloor>"
    using floor_mono [OF assms] by linarith
  then have "y - of_int \<lfloor>z\<rfloor> \<le> z - of_int \<lfloor>z\<rfloor>" using assms by simp
  then show ?thesis
    by (simp add: roundHalfEven_def Let_def eq)
qed

lemma binade_bounds:
  assumes "0 < x"
  shows "2 powr (of_int (binade x)) \<le> x" and "x < 2 powr (of_int (binade x) + 1)"
  using floor_log_eq_powr_iff [of x 2 "binade x"] assms by (simp_all add: binade_def)

lemma binade_eq:
  assumes "0 < x" and "2 powr (of_int e) \<le> x" and "x < 2 powr (of_int e + 1)"
  shows "binade x = e"
  using floor_log_eq_powr_iff [of x 2 e] assms by (simp add: binade_def)

lemma binade_mono: "0 < x \<Longrightarrow> x \<le> y \<Longrightarrow> binade x \<le> binade y"
  unfolding binade_def by (intro floor_mono log_mono) simp_all

lemma ulp_pos [simp]: "0 < ulp x"
  by (simp add: ulp_def)

lemma scaled_bounds:
  assumes "0 < x"
  shows "2 ^ 52 \<le> x / ulp x" and "x / ulp x < 2 ^ 53"
proof -
  let ?e = "of_int (binade x) :: real"
  have u: "x / ulp x = x * 2 powr (52 - ?e)"
    by (simp add: ulp_def powr_diff field_simps)
  have "2 powr ?e * 2 powr (52 - ?e) \<le> x * 2 powr (52 - ?e)"
    using binade_bounds(1) [OF assms] by (simp add: mult_right_mono)
  then show "2 ^ 52 \<le> x / ulp x"
    unfolding u by (simp add: powr_add [symmetric])
  have "x * 2 powr (52 - ?e) < 2 powr (?e + 1) * 2 powr (52 - ?e)"
    using binade_bounds(2) [OF assms] by (simp add: mult_strict_right_mono)
  then show "x / ulp x < 2 ^ 53"
    unfolding u by (simp add: powr_add [symmetric])
qed

lemma nearestDouble_bounds:
  assumes "0 < x"
  shows "2 powr (of_int (binade x)) \<le> nearestDouble x"
    and "nearestDouble x \<le> 2 powr (of_int (binade x) + 1)"
proof -
  let ?e = "of_int (binade x) :: real"
  have "roundHalfEven (of_int (2 ^ 52)) \<le> roundHalfEven (x / ulp x)"
    using scaled_bounds(1) [OF assms] by (intro roundHalfEven_mono) simp
  then have lo: "(2 ^ 52 :: real) \<le> of_int (roundHalfEven (x / ulp x))"
    unfolding roundHalfEven_of_int by (metis of_int_le_iff of_int_numeral of_int_power)
  have "roundHalfEven (x / ulp x) \<le> roundHalfEven (of_int (2 ^ 53))"
    using scaled_bounds(2) [OF assms] by (intro roundHalfEven_mono) simp
  then have hi: "of_int (roundHalfEven (x / ulp x)) \<le> (2 ^ 53 :: real)"
    unfolding roundHalfEven_of_int by (metis of_int_le_iff of_int_numeral of_int_power)
  have a: "2 powr ?e = 2 ^ 52 * ulp x"
    by (simp add: ulp_def powr_diff)
  have b: "2 powr (?e + 1) = 2 ^ 53 * ulp x"
    by (simp add: ulp_def powr_diff powr_add)
  show "2 powr ?e \<le> nearestDouble x"
    unfolding a nearestDouble_def using lo by (simp add: mult_right_mono)
  show "nearestDouble x \<le> 2 powr (?e + 1)"
    unfolding b nearestDouble_def using hi by (simp add: mult_right_mono)
qed

lemma nearestDouble_mono:
  assumes "0 < x" and "x \<le> y"
  shows "nearestDouble x \<le> nearestDouble y"
proof (cases "binade x = binade y")
  case True
  then have u: "ulp x = ulp y" by (simp add: ulp_def)
  have "x / ulp y \<le> y / ulp y"
    using assms(2) by (intro divide_right_mono) (simp_all add: less_imp_le)
  then have "roundHalfEven (x / ulp y) \<le> roundHalfEven (y / ulp y)"
    by (rule roundHalfEven_mono)
  then show ?thesis
    by (simp add: nearestDouble_def u mult_right_mono)
next
  case False
  then have "binade x + 1 \<le> binade y"
    using binade_mono [OF assms] by simp
  then have "(of_int (binade x) + 1 :: real) \<le> of_int (binade y)"
    by (metis of_int_1 of_int_add of_int_le_iff)
  then have "(2::real) powr (of_int (binade x) + 1) \<le> 2 powr (of_int (binade y))"
    by simp
  moreover have "0 < y" using assms by simp
  ultimately show ?thesis
    using nearestDouble_bounds(2) [OF assms(1)] nearestDouble_bounds(1) [of y] by linarith
qed

lemma nearestDouble_pos: "0 < x \<Longrightarrow> 0 < nearestDouble x"
  using nearestDouble_bounds(1) [of x] powr_gt_zero [of 2 "of_int (binade x)"] by linarith

lemma toDouble_mono:
  assumes "x \<le> y"
  shows "toDouble x \<le> toDouble y"
proof -
  consider "0 < x" | "x = 0" | "x < 0" "0 \<le> y" | "x < 0" "y < 0" by linarith
  then show ?thesis
  proof cases
    case 1
    then show ?thesis using assms nearestDouble_mono [of x y] by (simp add: toDouble_def)
  next
    case 2
    then show ?thesis using assms nearestDouble_pos [of y] by (auto simp: toDouble_def less_eq_real_def)
  next
    case 3
    then show ?thesis
      using nearestDouble_pos [of "- x"] nearestDouble_pos [of y]
      by (auto simp: toDouble_def less_eq_real_def)
  next
    case 4
    then show ?thesis
      using assms nearestDouble_mono [of "- y" "- x"] by (simp add: toDouble_def)
  qed
qed

lemma toDouble_minus: "toDouble (- x) = - toDouble x"
  by (simp add: toDouble_def)

lemma toDouble_binade:
  assumes "0 < x" and "2 powr (of_int e) \<le> x" and "x < 2 powr (of_int e + 1)"
  shows "toDouble x = of_int (roundHalfEven (x / 2 powr (of_int e - 52))) * 2 powr (of_int e - 52)"
  using assms(1) binade_eq [OF assms] by (simp add: toDouble_def nearestDouble_def ulp_def)


lemma toDouble_zero [simp]: "toDouble 0 = 0"
  by (simp add: toDouble_def)

lemma toDouble_of_int:
  assumes "\<bar>m\<bar> < 2 ^ 53"
  shows "toDouble (of_int m) = of_int m"
proof -
  have pos: "toDouble (of_int k) = of_int k" if k: "0 < k" "k < 2 ^ 53" for k :: int
  proof -
    let ?x = "of_int k :: real"
    let ?e = "binade ?x"
    have x: "0 < ?x" using k(1) by simp
    have "?x < 2 powr 53" using k(2) by (metis of_int_less_iff of_int_numeral of_int_power powr_numeral zero_le_numeral)
    with binade_bounds(1) [OF x] have "(2::real) powr (of_int ?e) < 2 powr 53" by linarith
    then have "(of_int ?e :: real) < 53" by (rule powr_less_cancel) simp
    then have e: "?e \<le> 52" by linarith
    define n where "n = nat (52 - ?e)"
    have "of_int ?e - 52 = - real n" using e by (simp add: n_def)
    then have "ulp ?x = 2 powr (- real n)" by (simp add: ulp_def)
    then have u: "ulp ?x = 1 / 2 ^ n" by (simp add: powr_minus powr_realpow inverse_eq_divide)
    have "?x / ulp ?x = of_int (k * 2 ^ n)" by (simp add: u)
    then have "roundHalfEven (?x / ulp ?x) = k * 2 ^ n" by (simp only: roundHalfEven_of_int)
    then have "nearestDouble ?x = of_int (k * 2 ^ n) * (1 / 2 ^ n)"
      by (simp only: nearestDouble_def u)
    then have "nearestDouble ?x = ?x" by simp
    then show ?thesis using x by (simp add: toDouble_def)
  qed
  consider "0 < m" | "m = 0" | "m < 0" by linarith
  then show ?thesis
  proof cases
    case 1
    then show ?thesis using assms pos [of m] by simp
  next
    case 2
    then show ?thesis by simp
  next
    case 3
    then have "toDouble (of_int (- m)) = of_int (- m)" using assms pos [of "- m"] by simp
    then show ?thesis using toDouble_minus [of "of_int m"] by simp
  qed
qed

lemma roundHalfEven_error: "\<bar>of_int (roundHalfEven y) - y\<bar> \<le> 1 / 2"
proof -
  have "of_int \<lfloor>y\<rfloor> \<le> y" "y < of_int \<lfloor>y\<rfloor> + 1" by linarith+
  then show ?thesis by (auto simp: roundHalfEven_def Let_def)
qed

lemma nearestDouble_error:
  assumes "0 < x"
  shows "\<bar>nearestDouble x - x\<bar> \<le> x / 2 ^ 53"
proof -
  let ?u = "ulp x"
  have u: "0 < ?u" by simp
  have u0: "?u \<noteq> 0" using ulp_pos [of x] by linarith
  have "nearestDouble x - x = (of_int (roundHalfEven (x / ?u)) - x / ?u) * ?u"
    unfolding nearestDouble_def using u0 by (simp add: algebra_simps)
  then have "\<bar>nearestDouble x - x\<bar> = \<bar>of_int (roundHalfEven (x / ?u)) - x / ?u\<bar> * ?u"
    by (simp add: abs_mult abs_of_pos)
  also have "\<dots> \<le> (1 / 2) * ?u"
    using roundHalfEven_error [of "x / ?u"]
    by (intro mult_right_mono) (simp_all add: less_imp_le)
  finally have 1: "\<bar>nearestDouble x - x\<bar> \<le> ?u / 2" by simp
  have "2 ^ 52 \<le> x / ?u" using scaled_bounds [OF assms] by simp
  then have "2 ^ 52 * ?u \<le> x" using u by (simp add: le_divide_eq)
  then have "?u / 2 \<le> x / 2 ^ 53" by simp
  with 1 show ?thesis by linarith
qed

lemma toDouble_error: "\<bar>toDouble x - x\<bar> \<le> \<bar>x\<bar> / 2 ^ 53"
proof -
  consider "0 < x" | "x = 0" | "x < 0" by linarith
  then show ?thesis
  proof cases
    case 1
    then show ?thesis using nearestDouble_error [of x] by (simp add: toDouble_def)
  next
    case 2
    then show ?thesis by simp
  next
    case 3
    then have "\<bar>nearestDouble (- x) - (- x)\<bar> \<le> (- x) / 2 ^ 53"
      by (intro nearestDouble_error) simp
    with 3 show ?thesis by (simp add: toDouble_def)
  qed
qed

lemma toDouble_within:
  assumes "\<bar>x\<bar> \<le> B"
  shows "\<bar>toDouble x - x\<bar> \<le> B / 9007199254740992"
proof -
  have "\<bar>x\<bar> / 2 ^ 53 \<le> B / 2 ^ 53" using assms by (simp add: divide_right_mono)
  with toDouble_error [of x] show ?thesis by simp
qed


section \<open>Recency score\<close>

lemma mathRound_mono: "x \<le> y \<Longrightarrow> mathRound x \<le> mathRound y"
  by (simp add: mathRound_def floor_mono)

lemma mathRound_of_int: "mathRound (of_int k) = k"
proof -
  have "\<lfloor>(1 / 2 :: real) + of_int k\<rfloor> = \<lfloor>1 / 2 :: real\<rfloor> + k"
    by (rule floor_add_int [symmetric])
  then show ?thesis by (simp add: mathRound_def add.commute)
qed

lemma mathRound_nonneg: "0 \<le> x \<Longrightarrow> 0 \<le> mathRound x"
  using mathRound_mono [of 0 x] mathRound_of_int [of 0] by simp

lemma mathRound_nonpos: "x \<le> 0 \<Longrightarrow> mathRound x \<le> 0"
  using mathRound_mono [of x 0] mathRound_of_int [of 0] by simp

lemma ageHoursOf_mono: "a \<le> b \<Longrightarrow> ageHoursOf a \<le> ageHoursOf b"
  unfolding ageHoursOf_def
  by (intro toDouble_mono divide_right_mono) simp_all

lemma ageHoursOf_hours:
  assumes "\<bar>h\<bar> \<le> 2400000000"
  shows "ageHoursOf (3600000 * h) = of_int h"
proof -
  have "\<bar>3600000 * h\<bar> < 2 ^ 53" using assms by (simp add: abs_mult)
  then have "toDouble (of_int (3600000 * h)) = of_int (3600000 * h)"
    by (rule toDouble_of_int)
  moreover have "\<bar>h\<bar> < 2 ^ 53" using assms by simp
  then have "toDouble (of_int h) = of_int h" by (rule toDouble_of_int)
  ultimately show ?thesis by (simp add: ageHoursOf_def)
qed

text \<open>The double that \<open>Math.max\<close> and \<open>Math.round\<close> receive.\<close>

lemma recencyOfAge_alt:
  "recencyOfAge a = mathRound (max 0 (toDouble (20 * toDouble (1 - toDouble (ageHoursOf a / 24)))))"
  by (simp add: recencyOfAge_def Let_def)

lemma recency_double_antimono:
  assumes "a \<le> b"
  shows "toDouble (20 * toDouble (1 - toDouble (ageHoursOf b / 24)))
       \<le> toDouble (20 * toDouble (1 - toDouble (ageHoursOf a / 24)))"
proof -
  have "toDouble (ageHoursOf a / 24) \<le> toDouble (ageHoursOf b / 24)"
    using ageHoursOf_mono [OF assms] by (intro toDouble_mono divide_right_mono) simp_all
  then have "toDouble (1 - toDouble (ageHoursOf b / 24)) \<le> toDouble (1 - toDouble (ageHoursOf a / 24))"
    by (intro toDouble_mono) simp
  then show ?thesis by (intro toDouble_mono) simp
qed

lemma recencyOfAge_antimono: "a \<le> b \<Longrightarrow> recencyOfAge b \<le> recencyOfAge a"
  unfolding recencyOfAge_alt
  by (intro mathRound_mono max.mono order_refl recency_double_antimono)

lemma recency_double_hours:
  assumes "\<bar>j\<bar> \<le> 100000000"
  shows "toDouble (20 * toDouble (1 - toDouble (ageHoursOf (- (86400000 * j)) / 24))) =
           of_int (20 + 20 * j)"
proof -
  have "\<bar>- 24 * j\<bar> \<le> 2400000000" using assms by (simp add: abs_mult)
  then have "ageHoursOf (3600000 * (- 24 * j)) = of_int (- 24 * j)"
    by (rule ageHoursOf_hours)
  then have a: "ageHoursOf (- (86400000 * j)) = of_int (- 24 * j)" by simp
  have "\<bar>- j\<bar> < 2 ^ 53" using assms by simp
  then have b: "toDouble (of_int (- j)) = of_int (- j)" by (rule toDouble_of_int)
  have "\<bar>1 + j\<bar> < 2 ^ 53" using assms by simp
  then have c: "toDouble (of_int (1 + j)) = of_int (1 + j)" by (rule toDouble_of_int)
  have "\<bar>20 + 20 * j\<bar> < 2 ^ 53" using assms by simp
  then have d: "toDouble (of_int (20 + 20 * j)) = of_int (20 + 20 * j)" by (rule toDouble_of_int)
  have 1: "(of_int (- 24 * j) :: real) / 24 = of_int (- j)" by simp
  have 2: "1 - (of_int (- j) :: real) = of_int (1 + j)" by simp
  have 3: "20 * (of_int (1 + j) :: real) = of_int (20 + 20 * j)" by simp
  show ?thesis by (simp only: a 1 b 2 c 3 d)
qed

lemma recencyOfAge_days_ahead:
  assumes "0 \<le> j" and "j \<le> 100000000"
  shows "recencyOfAge (- (86400000 * j)) = 20 + 20 * j"
proof -
  have "\<bar>j\<bar> \<le> 100000000" using assms by simp
  then have d: "toDouble (20 * toDouble (1 - toDouble (ageHoursOf (- (86400000 * j)) / 24))) =
           of_int (20 + 20 * j)"
    by (rule recency_double_hours)
  have "(0::real) \<le> of_int (20 + 20 * j)" using assms(1) by simp
  then show ?thesis
    unfolding recencyOfAge_alt d by (simp only: max_absorb2 mathRound_of_int)
qed

lemma recencyOfAge_zero: "recencyOfAge 0 = 20"
  using recencyOfAge_days_ahead [of 0] by simp




lemma recencyOfAge_max:
  "recencyOfAge a =
     max 0 (mathRound (toDouble (20 * toDouble (1 - toDouble (ageHoursOf a / 24)))))"
proof (cases "0 \<le> toDouble (20 * toDouble (1 - toDouble (ageHoursOf a / 24)))")
  case True
  then show ?thesis
    unfolding recencyOfAge_alt using mathRound_nonneg [OF True] by (simp add: max_def)
next
  case False
  then have "mathRound (toDouble (20 * toDouble (1 - toDouble (ageHoursOf a / 24)))) \<le> 0"
    by (intro mathRound_nonpos) simp
  with False show ?thesis
    unfolding recencyOfAge_alt using mathRound_of_int [of 0] by (simp add: max_def)
qed

lemma recencyOfAge_future:
  assumes "a < 0"
  shows "recencyOfAge a = mathRound (toDouble (20 * toDouble (1 - toDouble (ageHoursOf a / 24))))"
    and "20 \<le> recencyOfAge a"
proof -
  show ge: "20 \<le> recencyOfAge a"
    using recencyOfAge_antimono [of a 0] assms by (simp add: recencyOfAge_zero)
  then show "recencyOfAge a = mathRound (toDouble (20 * toDouble (1 - toDouble (ageHoursOf a / 24))))"
    using recencyOfAge_max [of a] by (simp add: max_def split: if_splits)
qed

lemma fold_scores_at:
  "foldl (\<lambda>scores i. scores(i \<mapsto> f i)) Map.empty [0..<n] i = (if i < n then Some (f i) else None)"
  by (induction n) auto


subsection \<open>The score at some ages\<close>


lemma recencyOfAge_72_minutes: "recencyOfAge 4320000 = 19"
proof -
  have s0: "toDouble (of_int 4320000) = 4320000"
    using toDouble_of_int [of "4320000"] by simp
  have s1: "toDouble (4320000 / (1000 * 60 * 60)) = 5404319552844595 / 4503599627370496"
    using toDouble_binade [of "6 / 5" "0"]
    by (simp add: toDouble_minus roundHalfEven_def Let_def powr_neg_numeral)
  have s2: "toDouble (5404319552844595 / 4503599627370496 / 24) = 7205759403792793 / 144115188075855872"
    using toDouble_binade [of "5404319552844595 / 108086391056891904" "- 5"]
    by (simp add: toDouble_minus roundHalfEven_def Let_def powr_neg_numeral)
  have s3: "toDouble (1 - (7205759403792793 / 144115188075855872)) = 4278419646001971 / 4503599627370496"
    using toDouble_binade [of "136909428672063079 / 144115188075855872" "- 1"]
    by (simp add: toDouble_minus roundHalfEven_def Let_def powr_neg_numeral)
  have s4: "toDouble (20 * (4278419646001971 / 4503599627370496)) = 19"
    using toDouble_binade [of "21392098230009855 / 1125899906842624" "4"]
    by (simp add: toDouble_minus roundHalfEven_def Let_def powr_neg_numeral)
  show ?thesis
    unfolding recencyOfAge_def ageHoursOf_def Let_def s0 s1 s2 s3 s4
    by (simp add: mathRound_def)
qed



lemma recencyOfAge_below_36_minutes_ahead: "recencyOfAge (- 2159999) = 20"
proof -
  have s0: "toDouble (of_int (- 2159999)) = - 2159999"
    using toDouble_of_int [of "- 2159999"] by simp
  have s1: "toDouble (- 2159999 / (1000 * 60 * 60)) = - (2702158525422401 / 4503599627370496)"
    using toDouble_binade [of "2159999 / 3600000" "- 1"]
    by (simp add: toDouble_minus roundHalfEven_def Let_def powr_neg_numeral)
  have s2: "toDouble (- (2702158525422401 / 4503599627370496) / 24) = - (7205756067793069 / 288230376151711744)"
    using toDouble_binade [of "2702158525422401 / 108086391056891904" "- 6"]
    by (simp add: toDouble_minus roundHalfEven_def Let_def powr_neg_numeral)
  have s3: "toDouble (1 - (- (7205756067793069 / 288230376151711744))) = 4616189565929763 / 4503599627370496"
    using toDouble_binade [of "295436132219504813 / 288230376151711744" "0"]
    by (simp add: toDouble_minus roundHalfEven_def Let_def powr_neg_numeral)
  have s4: "toDouble (20 * (4616189565929763 / 4503599627370496)) = 1442559239353051 / 70368744177664"
    using toDouble_binade [of "23080947829648815 / 1125899906842624" "4"]
    by (simp add: toDouble_minus roundHalfEven_def Let_def powr_neg_numeral)
  show ?thesis
    unfolding recencyOfAge_def ageHoursOf_def Let_def s0 s1 s2 s3 s4
    by (simp add: mathRound_def)
qed

lemma recencyOfAge_36_minutes_ahead: "recencyOfAge (- 2160000) = 21"
proof -
  have s0: "toDouble (of_int (- 2160000)) = - 2160000"
    using toDouble_of_int [of "- 2160000"] by simp
  have s1: "toDouble (- 2160000 / (1000 * 60 * 60)) = - (5404319552844595 / 9007199254740992)"
    using toDouble_binade [of "3 / 5" "- 1"]
    by (simp add: toDouble_minus roundHalfEven_def Let_def powr_neg_numeral)
  have s2: "toDouble (- (5404319552844595 / 9007199254740992) / 24) = - (7205759403792793 / 288230376151711744)"
    using toDouble_binade [of "5404319552844595 / 216172782113783808" "- 6"]
    by (simp add: toDouble_minus roundHalfEven_def Let_def powr_neg_numeral)
  have s3: "toDouble (1 - (- (7205759403792793 / 288230376151711744))) = 2308094809027379 / 2251799813685248"
    using toDouble_binade [of "295436135555504537 / 288230376151711744" "0"]
    by (simp add: toDouble_minus roundHalfEven_def Let_def powr_neg_numeral)
  have s4: "toDouble (20 * (2308094809027379 / 2251799813685248)) = 41 / 2"
    using toDouble_binade [of "11540474045136895 / 562949953421312" "4"]
    by (simp add: toDouble_minus roundHalfEven_def Let_def powr_neg_numeral)
  show ?thesis
    unfolding recencyOfAge_def ageHoursOf_def Let_def s0 s1 s2 s3 s4
    by (simp add: mathRound_def)
qed

lemma recencyOfAge_72_minutes_ahead: "recencyOfAge (- 4320000) = 21"
proof -
  have s0: "toDouble (of_int (- 4320000)) = - 4320000"
    using toDouble_of_int [of "- 4320000"] by simp
  have s1: "toDouble (- 4320000 / (1000 * 60 * 60)) = - (5404319552844595 / 4503599627370496)"
    using toDouble_binade [of "6 / 5" "0"]
    by (simp add: toDouble_minus roundHalfEven_def Let_def powr_neg_numeral)
  have s2: "toDouble (- (5404319552844595 / 4503599627370496) / 24) = - (7205759403792793 / 144115188075855872)"
    using toDouble_binade [of "5404319552844595 / 108086391056891904" "- 5"]
    by (simp add: toDouble_minus roundHalfEven_def Let_def powr_neg_numeral)
  have s3: "toDouble (1 - (- (7205759403792793 / 144115188075855872))) = 4728779608739021 / 4503599627370496"
    using toDouble_binade [of "151320947479648665 / 144115188075855872" "0"]
    by (simp add: toDouble_minus roundHalfEven_def Let_def powr_neg_numeral)
  have s4: "toDouble (20 * (4728779608739021 / 4503599627370496)) = 21"
    using toDouble_binade [of "23643898043695105 / 1125899906842624" "4"]
    by (simp add: toDouble_minus roundHalfEven_def Let_def powr_neg_numeral)
  show ?thesis
    unfolding recencyOfAge_def ageHoursOf_def Let_def s0 s1 s2 s3 s4
    by (simp add: mathRound_def)
qed

lemma recencyOfAge_future_half_point: "recencyOfAge (- 105840000) = 44"
proof -
  have s0: "toDouble (of_int (- 105840000)) = - 105840000"
    using toDouble_of_int [of "- 105840000"] by simp
  have s1: "toDouble (- 105840000 / (1000 * 60 * 60)) = - (4137682157646643 / 140737488355328)"
    using toDouble_binade [of "147 / 5" "4"]
    by (simp add: toDouble_minus roundHalfEven_def Let_def powr_neg_numeral)
  have s2: "toDouble (- (4137682157646643 / 140737488355328) / 24) = - (5516909543528857 / 4503599627370496)"
    using toDouble_binade [of "4137682157646643 / 3377699720527872" "0"]
    by (simp add: toDouble_minus roundHalfEven_def Let_def powr_neg_numeral)
  have s3: "toDouble (1 - (- (5516909543528857 / 4503599627370496))) = 1252563646362419 / 562949953421312"
    using toDouble_binade [of "10020509170899353 / 4503599627370496" "1"]
    by (simp add: toDouble_minus roundHalfEven_def Let_def powr_neg_numeral)
  have s4: "toDouble (20 * (1252563646362419 / 562949953421312)) = 6262818231812095 / 140737488355328"
    using toDouble_binade [of "6262818231812095 / 140737488355328" "5"]
    by (simp add: toDouble_minus roundHalfEven_def Let_def powr_neg_numeral)
  show ?thesis
    unfolding recencyOfAge_def ageHoursOf_def Let_def s0 s1 s2 s3 s4
    by (simp add: mathRound_def)
qed

lemma recencyOfAge_above_20: "(20 < recencyOfAge a) = (a \<le> - 2160000)"
proof (cases "a \<le> - 2160000")
  case True
  then have "recencyOfAge (- 2160000) \<le> recencyOfAge a" by (rule recencyOfAge_antimono)
  with True show ?thesis by (simp add: recencyOfAge_36_minutes_ahead)
next
  case False
  then have "- 2159999 \<le> a" by simp
  then have "recencyOfAge a \<le> recencyOfAge (- 2159999)" by (rule recencyOfAge_antimono)
  with False show ?thesis by (simp add: recencyOfAge_below_36_minutes_ahead)
qed


lemma recencyOfAge_minus_one_ms: "recencyOfAge (- 1) = 20"
  using recencyOfAge_above_20 [of "- 1"] recencyOfAge_antimono [of "- 1" 0]
  by (simp add: recencyOfAge_zero)

lemma recency_double_close:
  assumes "\<bar>a\<bar> \<le> 8640000000000000"
  shows "\<bar>toDouble (20 * toDouble (1 - toDouble (ageHoursOf a / 24)))
           - (20 - of_int a / 4320000)\<bar> \<le> 1 / 100000"
proof -
  define r :: real where "r = of_int a"
  define h where "h = ageHoursOf a"
  define q where "q = toDouble (h / 24)"
  define s where "s = toDouble (1 - q)"
  define d where "d = toDouble (20 * s)"
  have "\<bar>a\<bar> < 2 ^ 53" using assms by simp
  then have "toDouble (of_int a) = r" unfolding r_def by (rule toDouble_of_int)
  then have h: "h = toDouble (r / 3600000)" by (simp add: h_def ageHoursOf_def)
  have r: "\<bar>r\<bar> \<le> 8640000000000000"
    using assms unfolding r_def by (metis of_int_abs of_int_le_iff of_int_numeral)
  then have "\<bar>r / 3600000\<bar> \<le> 2400000000" by simp
  from toDouble_within [OF this] have 1: "\<bar>h - r / 3600000\<bar> \<le> 3 / 10000000"
    unfolding h by simp
  have "\<bar>h / 24\<bar> \<le> 100000001" using 1 r by linarith
  from toDouble_within [OF this] have 2: "\<bar>q - h / 24\<bar> \<le> 2 / 100000000"
    unfolding q_def by simp
  have "\<bar>1 - q\<bar> \<le> 100000003" using 1 2 r by linarith
  from toDouble_within [OF this] have 3: "\<bar>s - (1 - q)\<bar> \<le> 2 / 100000000"
    unfolding s_def by simp
  have "\<bar>20 * s\<bar> \<le> 2000000100" using 1 2 3 r by linarith
  from toDouble_within [OF this] have 4: "\<bar>d - 20 * s\<bar> \<le> 3 / 10000000"
    unfolding d_def by simp
  have "\<bar>d - (20 - r / 4320000)\<bar> \<le> 1 / 100000" using 1 2 3 4 by linarith
  then show ?thesis unfolding d_def s_def q_def h_def r_def .
qed

lemma mathRound_near_int:
  assumes "\<bar>x - of_int k\<bar> < 1 / 2"
  shows "mathRound x = k"
  unfolding mathRound_def using assms by (intro floor_unique) linarith+

lemma mathRound_max: "mathRound (max 0 x) = max 0 (mathRound x)"
proof (cases "0 \<le> x")
  case True
  then show ?thesis using mathRound_nonneg [OF True] by (simp add: max_def)
next
  case False
  then have "mathRound x \<le> 0" by (intro mathRound_nonpos) simp
  with False show ?thesis using mathRound_of_int [of 0] by (simp add: max_def)
qed

lemma mathRound_close:
  assumes "\<bar>x - y\<bar> \<le> 1"
  shows "\<bar>mathRound x - mathRound y\<bar> \<le> 1"
proof -
  have "x + 1 / 2 \<le> (y + 1 / 2) + of_int 1" using assms by simp
  then have "\<lfloor>x + 1 / 2\<rfloor> \<le> \<lfloor>(y + 1 / 2) + of_int 1\<rfloor>" by (rule floor_mono)
  then have 1: "mathRound x \<le> mathRound y + 1"
    unfolding mathRound_def by (simp only: floor_add_int [symmetric])
  have "y + 1 / 2 \<le> (x + 1 / 2) + of_int 1" using assms by simp
  then have "\<lfloor>y + 1 / 2\<rfloor> \<le> \<lfloor>(x + 1 / 2) + of_int 1\<rfloor>" by (rule floor_mono)
  then have 2: "mathRound y \<le> mathRound x + 1"
    unfolding mathRound_def by (simp only: floor_add_int [symmetric])
  from 1 2 show ?thesis by simp
qed

lemma max_zero_close: "\<bar>x - y\<bar> \<le> c \<Longrightarrow> \<bar>max 0 x - max 0 y\<bar> \<le> (c::real)"
  by (cases "0 \<le> x"; cases "0 \<le> y"; simp add: max_def; linarith)

text \<open>The score of the code against the score of the formula evaluated without
  rounding.\<close>

lemma recencyOfAge_near_exact:
  assumes "\<bar>a\<bar> \<le> 8640000000000000"
  shows "\<bar>recencyOfAge a - max 0 (mathRound (20 * (1 - of_int a / (1000 * 60 * 60) / 24)))\<bar> \<le> 1"
proof -
  let ?d = "toDouble (20 * toDouble (1 - toDouble (ageHoursOf a / 24)))"
  let ?e = "20 * (1 - of_int a / (1000 * 60 * 60) / 24) :: real"
  have "?e = 20 - of_int a / 4320000" by simp
  with recency_double_close [OF assms] have "\<bar>?d - ?e\<bar> \<le> 1" by simp
  then have "\<bar>max 0 ?d - max 0 ?e\<bar> \<le> 1" by (rule max_zero_close)
  then have "\<bar>mathRound (max 0 ?d) - mathRound (max 0 ?e)\<bar> \<le> 1" by (rule mathRound_close)
  then show ?thesis by (simp only: recencyOfAge_alt mathRound_max)
qed

lemma recencyOfAge_steps_ahead:
  assumes "0 \<le> k" and "k \<le> 2000000000"
  shows "recencyOfAge (- (4320000 * k)) = 20 + k"
proof -
  let ?d = "toDouble (20 * toDouble (1 - toDouble (ageHoursOf (- (4320000 * k)) / 24)))"
  have "\<bar>- (4320000 * k)\<bar> \<le> 8640000000000000" using assms by simp
  from recency_double_close [OF this]
  have c: "\<bar>?d - of_int (20 + k)\<bar> \<le> 1 / 100000" by simp
  then have "\<bar>?d - of_int (20 + k)\<bar> < 1 / 2" by simp
  then have r: "mathRound ?d = 20 + k" by (rule mathRound_near_int)
  have "(20::real) \<le> of_int (20 + k)" using assms(1) by simp
  with c have "0 \<le> ?d" by linarith
  then show ?thesis unfolding recencyOfAge_alt using r by (simp add: max_def)
qed

text \<open>The score of the same two ages when the formula is evaluated without rounding.\<close>

lemma exact_formula_half_points:
  "max 0 (mathRound (20 * (1 - 41040000 / (1000 * 60 * 60) / 24))) = 11"
  "mathRound (20 * (1 - (- 105840000) / (1000 * 60 * 60) / 24)) = 45"
  by (simp_all add: mathRound_def)

section \<open>Recency: decay and future dates\<close>




lemma keepItem_iff:
  "keepItem now sentCache maxAgeHours x =
     (\<not> has sentCache (normalizeUrl (link x))
      \<and> \<not> ageHoursOf (now - publishedAt x) > of_int maxAgeHours
      \<and> link x \<noteq> [])"
  by (simp add: keepItem_def Let_def)

lemma ageHoursOf_zero: "ageHoursOf 0 = 0"
  using ageHoursOf_hours [of 0] by simp

lemma ageHoursOf_one_hour: "ageHoursOf 3600000 = 1"
  using ageHoursOf_hours [of 1] by simp

lemma future_age_passes:
  assumes "now < publishedAt x" and "0 \<le> maxAgeHours"
  shows "\<not> ageHoursOf (now - publishedAt x) > of_int maxAgeHours"
proof -
  have "ageHoursOf (now - publishedAt x) \<le> ageHoursOf 0"
    using assms(1) by (intro ageHoursOf_mono) simp
  then have "ageHoursOf (now - publishedAt x) \<le> 0" by (simp only: ageHoursOf_zero)
  moreover have "(0::real) \<le> of_int maxAgeHours" using assms(2) by simp
  ultimately show ?thesis by linarith
qed

lemma deduplicateBySimilarity_single: "deduplicateBySimilarity [x] = [x]"
  by (simp add: deduplicateBySimilarity_greedy sortByScoreDesc_def keepUnless_def)

lemma diversifiedPick_single: "1 \<le> maxItems \<Longrightarrow> diversifiedPick [x] maxItems 3 = [x]"
  by (simp add: diversifiedPick_def getOr0_def)

lemma rankNews_single:
  assumes "keepItem (tNow w) (loadSentCache (cache w) (tLoad w)) maxAgeHours x"
    and "1 \<le> maxItems"
  shows "fst (rankNews w [x] maxItems maxAgeHours) = [x]"
  using assms
  by (simp add: rankNews_def Let_def deduplicateBySimilarity_single sortByScoreDesc_def
      diversifiedPick_single)

lemma recencyOfAge_future_near_exact:
  assumes "ageMs < 0 \<and> - 8640000000000000 \<le> ageMs"
  shows "\<bar>recencyOfAge ageMs
           - mathRound (20 * (1 - of_int ageMs / (1000 * 60 * 60) / 24))\<bar> \<le> 1"
proof -
  let ?e = "20 * (1 - of_int ageMs / (1000 * 60 * 60) / 24) :: real"
  have "(0::real) \<le> ?e" using assms by simp
  then have "0 \<le> mathRound ?e" by (rule mathRound_nonneg)
  then have "max 0 (mathRound ?e) = mathRound ?e" by simp
  moreover have "\<bar>ageMs\<bar> \<le> 8640000000000000" using assms by simp
  then have "\<bar>recencyOfAge ageMs - max 0 (mathRound ?e)\<bar> \<le> 1"
    by (rule recencyOfAge_near_exact)
  ultimately show ?thesis by simp
qed

text \<open>
  C10, as amended. For a document published after the current time (negative age) the
  recency sub-score is \<open>round(d)\<close>, where \<open>d\<close> is \<open>20 \<times> (1 - ageHours / 24)\<close> computed
  in double arithmetic; up to 8640000000000000 ms in the future it differs by at most 1
  from the score of the formula evaluated without rounding. It is at least 20, and
  strictly greater than 20 exactly when the document lies 36 minutes (2160000 ms) or
  more in the future. It never decreases when the time stamp moves further into the
  future and has no cap: a document \<open>k\<close> times 72 minutes in the future scores exactly
  \<open>20 + k\<close>, for every \<open>k\<close> up to 2000000000, which is 8640000000000000 ms in the
  future. The filter of \<open>rankNews\<close> rejects for age only when
  \<open>ageHours > maxAgeHours\<close>, which never holds for a future-dated document when
  \<open>maxAgeHours\<close> is not negative; such a document with a non-empty link that is not
  in the sent cache is returned by \<open>rankNews\<close>.
\<close>

theorem recency_future_uncapped:
  "(ageMs < 0 \<longrightarrow>
      recencyOfAge ageMs =
        mathRound (toDouble (20 * toDouble (1 - toDouble (ageHoursOf ageMs / 24))))
      \<and> 20 \<le> recencyOfAge ageMs)
   \<and> (ageMs < 0 \<and> - 8640000000000000 \<le> ageMs \<longrightarrow>
        \<bar>recencyOfAge ageMs
           - mathRound (20 * (1 - of_int ageMs / (1000 * 60 * 60) / 24))\<bar> \<le> 1)
   \<and> (20 < recencyOfAge ageMs) = (ageMs \<le> - 2160000)
   \<and> (a \<le> b \<longrightarrow> recencyOfAge b \<le> recencyOfAge a)
   \<and> (0 \<le> k \<and> k \<le> 2000000000 \<longrightarrow> recencyOfAge (- (4320000 * k)) = 20 + k)
   \<and> keepItem now sentCache maxAgeHours x =
       (\<not> has sentCache (normalizeUrl (link x))
        \<and> \<not> ageHoursOf (now - publishedAt x) > of_int maxAgeHours
        \<and> link x \<noteq> [])
   \<and> (now < publishedAt x \<and> 0 \<le> maxAgeHours \<longrightarrow>
        \<not> ageHoursOf (now - publishedAt x) > of_int maxAgeHours)
   \<and> (tNow w < publishedAt x \<and> 0 \<le> maxAgeHours \<and> 1 \<le> maxItems \<and> link x \<noteq> []
        \<and> \<not> has (loadSentCache (cache w) (tLoad w)) (normalizeUrl (link x)) \<longrightarrow>
        fst (rankNews w [x] maxItems maxAgeHours) = [x])"
proof (intro conjI impI)
  show "ageMs < 0 \<Longrightarrow> recencyOfAge ageMs =
        mathRound (toDouble (20 * toDouble (1 - toDouble (ageHoursOf ageMs / 24))))"
    by (rule recencyOfAge_future)
  show "ageMs < 0 \<Longrightarrow> 20 \<le> recencyOfAge ageMs"
    by (rule recencyOfAge_future)
  show "(20 < recencyOfAge ageMs) = (ageMs \<le> - 2160000)"
    by (rule recencyOfAge_above_20)
  show "a \<le> b \<Longrightarrow> recencyOfAge b \<le> recencyOfAge a"
    by (rule recencyOfAge_antimono)
  show "0 \<le> k \<and> k \<le> 2000000000 \<Longrightarrow> recencyOfAge (- (4320000 * k)) = 20 + k"
    using recencyOfAge_steps_ahead by blast
  show "ageMs < 0 \<and> - 8640000000000000 \<le> ageMs \<Longrightarrow>
        \<bar>recencyOfAge ageMs
           - mathRound (20 * (1 - of_int ageMs / (1000 * 60 * 60) / 24))\<bar> \<le> 1"
    by (rule recencyOfAge_future_near_exact)
  show "keepItem now sentCache maxAgeHours x =
       (\<not> has sentCache (normalizeUrl (link x))
        \<and> \<not> ageHoursOf (now - publishedAt x) > of_int maxAgeHours
        \<and> link x \<noteq> [])"
    by (rule keepItem_iff)
  show "now < publishedAt x \<and> 0 \<le> maxAgeHours \<Longrightarrow>
        \<not> ageHoursOf (now - publishedAt x) > of_int maxAgeHours"
    using future_age_passes by blast
next
  assume a: "tNow w < publishedAt x \<and> 0 \<le> maxAgeHours \<and> 1 \<le> maxItems \<and> link x \<noteq> []
        \<and> \<not> has (loadSentCache (cache w) (tLoad w)) (normalizeUrl (link x))"
  then have "keepItem (tNow w) (loadSentCache (cache w) (tLoad w)) maxAgeHours x"
    using future_age_passes [of "tNow w" x maxAgeHours] by (simp add: keepItem_iff)
  with a show "fst (rankNews w [x] maxItems maxAgeHours) = [x]"
    by (simp add: rankNews_single)
qed

theorem recency_future_uncapped_witness:
  "recencyOfAge (- 4320000) = 21
   \<and> recencyOfAge (0 - publishedAt docFuture) = 21
   \<and> \<bar>recencyOfAge (- 4320000) - 21\<bar> \<le> 1
   \<and> recencyOfAge (- 86400000) \<le> recencyOfAge (- 172800000)
   \<and> keepItem 0 [] 24 docFuture
   \<and> fst (rankNews quietWorld [docFuture] 10 24) = [docFuture]"
proof -
  note f = recency_future_uncapped [where ageMs = "- 4320000" and k = 1 and now = 0
      and a = "- 172800000" and b = "- 86400000"
      and sentCache = "[]" and maxAgeHours = 24 and x = docFuture and w = quietWorld
      and maxItems = 10, THEN conjunct2]
  have e: "mathRound (20 * (1 - of_int (- 4320000) / (1000 * 60 * 60) / 24)) = 21"
    using mathRound_of_int [of 21] by simp
  have "\<bar>recencyOfAge (- 4320000)
      - mathRound (20 * (1 - of_int (- 4320000) / (1000 * 60 * 60) / 24))\<bar> \<le> 1"
    by (rule f [THEN conjunct1, THEN mp]) simp
  then have 1: "\<bar>recencyOfAge (- 4320000) - 21\<bar> \<le> 1" by (simp only: e)
  from f [THEN conjunct2]
  have 2: "recencyOfAge (- 4320000) = 21
      \<and> recencyOfAge (- 86400000) \<le> recencyOfAge (- 172800000)
      \<and> keepItem 0 [] 24 docFuture
      \<and> fst (rankNews quietWorld [docFuture] 10 24) = [docFuture]"
    by (simp add: docFuture_def fetched_def quietWorld_def loadSentCache_def has_def)
  then have 3: "recencyOfAge (0 - publishedAt docFuture) = 21"
    by (simp add: docFuture_def fetched_def)
  from 1 2 3 show ?thesis by simp
qed

text \<open>
  C10 as stated fails in two places. A document published 1 ms after the current time
  scores exactly 20, not more. And the score is not the formula evaluated exactly: for
  a document 105840000 ms in the future the exact value of
  \<open>20 \<times> (1 - ageHours / 24)\<close> is 44.5, which rounds to 45, while the doubles of the
  code stay just below 44.5 and give 44.
\<close>

theorem recency_future_above_20_counterexample:
  "\<not> (\<forall>ageMs < 0. 20 < recencyOfAge ageMs)
   \<and> recencyOfAge (- 1) = 20
   \<and> recencyOfAge (- 105840000) = 44
   \<and> mathRound (20 * (1 - (- 105840000) / (1000 * 60 * 60) / 24)) = 45"
proof -
  have "\<not> (\<forall>ageMs < 0. 20 < recencyOfAge ageMs)"
  proof
    assume "\<forall>ageMs < 0. 20 < recencyOfAge ageMs"
    then have "20 < recencyOfAge (- 1)" by simp
    then show False by (simp add: recencyOfAge_minus_one_ms)
  qed
  then show ?thesis
    by (simp only: recencyOfAge_minus_one_ms recencyOfAge_future_half_point
        exact_formula_half_points simp_thms)
qed

section \<open>Ranker: the delivered set\<close>

lemma loadSentCache_Stored:
  "loadSentCache (Stored urls timestamp) now =
     (if now - timestamp > 172800000 then [] else newSet urls)"
  by (simp add: loadSentCache_def)



lemma rankNews_fst:
  "fst (rankNews w items maxItems maxAgeHours) =
     diversifiedPick (sortByScoreDesc (deduplicateBySimilarity
       (filter (keepItem (tNow w) (loadSentCache (cache w) (tLoad w)) maxAgeHours) items)))
       maxItems 3"
  by (simp add: rankNews_def Let_def)







section \<open>Ranker: the selection\<close>

lemma greedy_set: "set (foldl (keepUnless dup) acc xs) \<subseteq> set acc \<union> set xs"
proof (induction xs arbitrary: acc)
  case Nil
  show ?case by simp
next
  case (Cons x xs)
  have "set (keepUnless dup acc x) \<subseteq> set acc \<union> {x}"
    by (auto simp: keepUnless_def)
  with Cons [of "keepUnless dup acc x"] show ?case by auto
qed

lemma deduplicateBySimilarity_set: "set (deduplicateBySimilarity xs) \<subseteq> set xs"
  using greedy_set [of similarTitles "[]" "sortByScoreDesc xs"]
  by (simp add: deduplicateBySimilarity_greedy sortByScoreDesc_def)

lemma getOr0_upd: "getOr0 (m(k \<mapsto> v)) s = (if s = k then v else getOr0 m s)"
  by (simp add: getOr0_def)

lemma diversifiedLoop_inv:
  assumes "\<forall>s. getOr0 sc s = length (filter (\<lambda>x. source x = s) res)"
    and "\<forall>s. length (filter (\<lambda>x. source x = s) res) \<le> mps"
    and "int (length res) \<le> max 0 mi"
  shows "(\<forall>s. length (filter (\<lambda>x. source x = s) (diversifiedLoop mi mps res sc xs)) \<le> mps)
       \<and> int (length (diversifiedLoop mi mps res sc xs)) \<le> max 0 mi
       \<and> set (diversifiedLoop mi mps res sc xs) \<subseteq> set res \<union> set xs"
  using assms
proof (induction xs arbitrary: res sc)
  case Nil
  then show ?case by simp
next
  case (Cons x xs)
  show ?case
  proof (cases "int (length res) \<ge> mi")
    case True
    with Cons.prems show ?thesis by auto
  next
    case full: False
    show ?thesis
    proof (cases "getOr0 sc (source x) \<ge> mps")
      case True
      then have step: "diversifiedLoop mi mps res sc (x # xs) = diversifiedLoop mi mps res sc xs"
        using full by (simp add: Let_def)
      from Cons.IH [OF Cons.prems] show ?thesis
        unfolding step by auto
    next
      case False
      let ?res = "res @ [x]" and ?sc = "sc(source x \<mapsto> getOr0 sc (source x) + 1)"
      have 1: "\<forall>s. getOr0 ?sc s = length (filter (\<lambda>y. source y = s) ?res)"
        using Cons.prems(1) by (auto simp: getOr0_upd)
      have 2: "\<forall>s. length (filter (\<lambda>y. source y = s) ?res) \<le> mps"
        using Cons.prems(1,2) False
        by (auto simp: not_le)
      have 3: "int (length ?res) \<le> max 0 mi"
        using full by simp
      have step: "diversifiedLoop mi mps res sc (x # xs) = diversifiedLoop mi mps ?res ?sc xs"
        using full False by (simp add: Let_def)
      have "set ?res \<union> set xs \<subseteq> set res \<union> set (x # xs)" by auto
      with Cons.IH [OF 1 2 3] show ?thesis
        unfolding step by blast
    qed
  qed
qed

lemma diversifiedPick_inv:
  "(\<forall>s. length (filter (\<lambda>x. source x = s) (diversifiedPick xs mi mps)) \<le> mps)
   \<and> int (length (diversifiedPick xs mi mps)) \<le> max 0 mi
   \<and> set (diversifiedPick xs mi mps) \<subseteq> set xs"
  using diversifiedLoop_inv [of Map.empty "[]" mps mi xs]
  by (simp add: diversifiedPick_def getOr0_def)

text \<open>
  C1, as amended. For every input list, every \<open>maxItems\<close> and every
  \<open>maxAgeHours\<close>, the list returned by \<open>rankNews\<close> contains at most 3 items with
  the same source, contains at most \<open>max(maxItems, 0)\<close> items (so at most
  \<open>maxItems\<close> when \<open>maxItems\<close> is not negative), and contains no item whose
  normalized link is a member of the sent cache loaded at the start of the call; when
  the stored record is not stale, that cache holds exactly the stored URLs.
\<close>

theorem rankNews_bounds:
  "(\<forall>s. length (filter (\<lambda>x. source x = s) (fst (rankNews w items maxItems maxAgeHours))) \<le> 3)
   \<and> int (length (fst (rankNews w items maxItems maxAgeHours))) \<le> max 0 maxItems
   \<and> (0 \<le> maxItems \<longrightarrow> int (length (fst (rankNews w items maxItems maxAgeHours))) \<le> maxItems)
   \<and> (\<forall>x \<in> set (fst (rankNews w items maxItems maxAgeHours)).
         \<not> has (loadSentCache (cache w) (tLoad w)) (normalizeUrl (link x)))
   \<and> (cache w = Stored urls timestamp \<and> \<not> tLoad w - timestamp > 48 * 60 * 60 * 1000 \<longrightarrow>
        (\<forall>x \<in> set (fst (rankNews w items maxItems maxAgeHours)).
           normalizeUrl (link x) \<notin> set urls))"
proof -
  let ?kept = "filter (keepItem (tNow w) (loadSentCache (cache w) (tLoad w)) maxAgeHours) items"
  let ?out = "fst (rankNews w items maxItems maxAgeHours)"
  have out: "?out = diversifiedPick (sortByScoreDesc (deduplicateBySimilarity ?kept)) maxItems 3"
    by (rule rankNews_fst)
  note inv = diversifiedPick_inv [of "sortByScoreDesc (deduplicateBySimilarity ?kept)" maxItems 3,
      folded out]
  from inv have per_source: "\<forall>s. length (filter (\<lambda>x. source x = s) ?out) \<le> 3" ..
  from inv have total: "int (length ?out) \<le> max 0 maxItems" by blast
  from inv have "set ?out \<subseteq> set (deduplicateBySimilarity ?kept)"
    by (simp add: sortByScoreDesc_def)
  then have "set ?out \<subseteq> set ?kept"
    using deduplicateBySimilarity_set [of ?kept] by blast
  then have unsent:
    "\<forall>x \<in> set ?out. \<not> has (loadSentCache (cache w) (tLoad w)) (normalizeUrl (link x))"
    by (auto simp: keepItem_iff)
  from total have nonneg: "0 \<le> maxItems \<longrightarrow> int (length ?out) \<le> maxItems"
    by (auto simp: max_def)
  have "cache w = Stored urls timestamp \<and> \<not> tLoad w - timestamp > 48 * 60 * 60 * 1000 \<longrightarrow>
        (\<forall>x \<in> set ?out. normalizeUrl (link x) \<notin> set urls)"
    using unsent by (auto simp: loadSentCache_Stored has_def)
  with per_source total nonneg unsent show ?thesis by blast
qed

theorem rankNews_bounds_witness:
  "fst (rankNews freshWorld [docRecent 0, docFinal] 1 24) = [docFinal]
   \<and> has (loadSentCache (cache freshWorld) (tLoad freshWorld)) (normalizeUrl (link (docRecent 0)))
   \<and> int (length (fst (rankNews freshWorld [docRecent 0, docFinal] 1 24))) \<le> 1"
proof -
  note b = rankNews_bounds [of freshWorld "[docRecent 0, docFinal]" 1 24]
  have n: "normalizeUrl (link (docRecent 0)) = ''https://a.example/1''"
    by (simp add: normalizeUrl_def docRecent_def fetched_def toLowerCase_def
        upperLetters_def lowerLetters_def)
  have c: "loadSentCache (cache freshWorld) (tLoad freshWorld) = [''https://a.example/1'']"
    by (simp add: freshWorld_def loadSentCache_Stored newSet_def setAdd_def)
  have k1: "\<not> keepItem (tNow freshWorld) [''https://a.example/1''] 24 (docRecent 0)"
    by (simp add: keepItem_iff n has_def)
  have n2: "normalizeUrl (link docFinal) = ''https://c.example/3''"
    by (simp add: normalizeUrl_def docFinal_def fetched_def toLowerCase_def
        upperLetters_def lowerLetters_def)
  have k2: "keepItem (tNow freshWorld) [''https://a.example/1''] 24 docFinal"
    by (simp add: keepItem_iff n2 has_def)
      (simp add: ageHoursOf_one_hour freshWorld_def docFinal_def fetched_def)
  have "fst (rankNews freshWorld [docRecent 0, docFinal] 1 24) = [docFinal]"
    by (simp add: rankNews_fst c k1 k2 deduplicateBySimilarity_single sortByScoreDesc_def
        diversifiedPick_single)
  with b c n show ?thesis by (simp add: has_def)
qed

text \<open>
  C1 as stated fails for a negative \<open>maxItems\<close>: the loop stops at once and the list
  returned is empty, which is not a list of at most \<open>-1\<close> items.
\<close>

theorem rankNews_maxItems_counterexample:
  "\<not> int (length (fst (rankNews quietWorld [] (- 1) 24))) \<le> - 1"
  by (simp add: rankNews_fst deduplicateBySimilarity_def sortByScoreDesc_def diversifiedPick_def)

section \<open>Cross-feed score\<close>

lemma hit_ratio_code:
  "(if length (newSet (extractKeywords (title a))) > 0
    then of_nat (length (filter (has (newSet (extractKeywords (title a))))
                           (extractKeywords (title b))))
         / of_nat (length (newSet (extractKeywords (title a))))
    else (0::real)) = keywordHitRatio a b"
proof -
  have "has (newSet (extractKeywords (title a))) = (\<lambda>w. w \<in> set (extractKeywords (title a)))"
    by (simp add: fun_eq_iff has_def)
  then show ?thesis
    by (simp add: keywordHitRatio_def length_newSet Let_def card_gt_0_iff)
qed

lemma crossFeedInner_visit:
  "crossFeedInner items i (newSet (extractKeywords (title (items ! i)))) st j =
     crossFeedVisit (items ! i) (newSet (extractKeywords (title (items ! i)))) st (items ! j)"
proof (cases st)
  case (Pair c m)
  show ?thesis
    unfolding Pair crossFeedInner_def crossFeedVisit_def Let_def
      hit_ratio_code [of "items ! i" "items ! j"]
    by auto
qed

lemma foldl_crossFeedInner:
  "foldl (crossFeedInner items i (newSet (extractKeywords (title (items ! i))))) st
     [0..<length items] =
   foldl (crossFeedVisit (items ! i) (newSet (extractKeywords (title (items ! i))))) st items"
proof -
  let ?kw = "newSet (extractKeywords (title (items ! i)))"
  have "foldl (crossFeedVisit (items ! i) ?kw) st (map ((!) items) [0..<length items]) =
        foldl (\<lambda>s j. crossFeedVisit (items ! i) ?kw s (items ! j)) st [0..<length items]"
    by (simp add: foldl_map)
  also have "\<dots> = foldl (crossFeedInner items i ?kw) st [0..<length items]"
    by (simp add: crossFeedInner_visit [abs_def])
  finally show ?thesis by (simp add: map_nth)
qed

lemma crossFeedVisit_inv:
  assumes "distinct m"
  shows "distinct (snd (foldl (crossFeedVisit a kwA) (c, m) bs))
       \<and> set (snd (foldl (crossFeedVisit a kwA) (c, m) bs)) =
           set m \<union> source ` {b \<in> set bs. source b \<noteq> source a \<and> keywordHitRatio a b \<ge> 4 / 10}
       \<and> fst (foldl (crossFeedVisit a kwA) (c, m) bs) + length m =
           c + length (snd (foldl (crossFeedVisit a kwA) (c, m) bs))"
  using assms
proof (induction bs arbitrary: c m)
  case Nil
  then show ?case by simp
next
  case (Cons b bs)
  show ?case
  proof (cases "source b \<noteq> source a \<and> \<not> has m (source b) \<and> keywordHitRatio a b \<ge> 4 / 10")
    case True
    then have step: "crossFeedVisit a kwA (c, m) b = (c + 1, m @ [source b])"
      by (simp add: crossFeedVisit_def setAdd_def has_def)
    have d: "distinct (m @ [source b])"
      using Cons.prems True by (simp add: has_def)
    from Cons.IH [OF d, of "c + 1"] True show ?thesis
      by (simp add: step) blast
  next
    case False
    then have step: "crossFeedVisit a kwA (c, m) b = (c, m)"
      by (auto simp: crossFeedVisit_def)
    from False have "source b \<noteq> source a \<and> keywordHitRatio a b \<ge> 4 / 10 \<longrightarrow> source b \<in> set m"
      by (auto simp: has_def)
    with Cons.IH [OF Cons.prems, of c] show ?thesis
      by (simp add: step) blast
  qed
qed

lemma corroboratingSources_image:
  "corroboratingSources ratio items a =
     source ` {b \<in> set items. source b \<noteq> source a \<and> ratio a b \<ge> 4 / 10}"
  by (auto simp: corroboratingSources_def)

lemma crossFeedScoreAt_card:
  "crossFeedScoreAt items i =
     crossFeedTier (card (corroboratingSources keywordHitRatio items (items ! i)))"
proof -
  let ?a = "items ! i"
  let ?kw = "newSet (extractKeywords (title ?a))"
  let ?st = "foldl (crossFeedVisit ?a ?kw) (0, [source ?a]) items"
  let ?S = "corroboratingSources keywordHitRatio items ?a"
  have "distinct [source ?a]" by simp
  note inv = crossFeedVisit_inv [OF this, where a = ?a and kwA = ?kw and c = 0 and bs = items,
      folded corroboratingSources_image]
  have fin: "finite ?S" by (simp add: corroboratingSources_def)
  have notin: "source ?a \<notin> ?S" by (auto simp: corroboratingSources_def)
  from inv have "distinct (snd ?st)" by blast
  then have "card (set (snd ?st)) = length (snd ?st)" by (rule distinct_card)
  moreover from inv have "set (snd ?st) = insert (source ?a) ?S" by simp
  moreover have "card (insert (source ?a) ?S) = Suc (card ?S)" using fin notin by simp
  ultimately have "length (snd ?st) = Suc (card ?S)" by simp
  moreover from inv have "fst ?st + 1 = length (snd ?st)" by simp
  ultimately have "fst ?st = card ?S" by simp
  then show ?thesis
    by (simp add: crossFeedScoreAt_def Let_def foldl_crossFeedInner setAdd_def)
qed

lemma computeCrossFeedScores_at:
  "computeCrossFeedScores items i =
     (if i < length items then Some (crossFeedScoreAt items i) else None)"
  unfolding computeCrossFeedScores_def by (rule fold_scores_at)

lemma crossFeedTier_mono: "m \<le> n \<Longrightarrow> crossFeedTier m \<le> crossFeedTier n"
  by (simp add: crossFeedTier_def)

subsection \<open>The score on two example documents\<close>

lemmas keyword_defs =
  extractKeywords_def toLowerCase_def stripNonAlphabet_def upperLetters_def lowerLetters_def
  isSpace_def inAlphabet_def alphabetLower_def alphabetUpper_def has_def STOP_WORDS_def

lemma keywords_docSenate:
  "extractKeywords (title docSenate) = [''senate'', ''passes'', ''budget'', ''bill'', ''debate'']"
  by (simp add: keyword_defs docSenate_def fetched_def)

lemma keywords_docGates:
  "extractKeywords (title docGates) = [''bill'', ''gates'', ''backs'', ''climate'', ''bill'']"
  by (simp add: keyword_defs docGates_def fetched_def)

lemma sources_examples: "source docSenate = ''Reuters''" "source docGates = ''BBC''"
  by (simp_all add: docSenate_def docGates_def fetched_def)

lemma keywordHitRatio_example: "keywordHitRatio docSenate docGates = 2 / 5"
  by (simp add: keywordHitRatio_def keywords_docSenate keywords_docGates)

lemma sharedKeywordRatio_example: "sharedKeywordRatio docSenate docGates = 1 / 5"
  by (simp add: sharedKeywordRatio_def keywords_docSenate keywords_docGates)

lemma corroboratingSources_hits:
  "corroboratingSources keywordHitRatio [docSenate, docGates] docSenate = {''BBC''}"
  by (simp add: corroboratingSources_def sources_examples keywordHitRatio_example)

lemma corroboratingSources_shared:
  "corroboratingSources sharedKeywordRatio [docSenate, docGates] docSenate = {}"
  by (simp add: corroboratingSources_def sources_examples sharedKeywordRatio_example)

text \<open>
  C5. For every candidate list, the cross-feed sub-score that the code gives document
  \<open>i\<close> is 0, 30, 40 or 50 according to whether 0, 1, 2 or at least 3 distinct other
  sources hold a document whose ratio against \<open>i\<close> is at least 0.4, each source
  counted once; it never decreases when the number of such sources grows and is 0 when
  there is none. The ratio of the code is not the share of shared keywords of the
  claim: it is the number of keyword occurrences in the title of the other document,
  repetitions included, that belong to the keyword set of \<open>i\<close>, divided by the size of
  that set.
\<close>

theorem crossFeed_counts_sources:
  "(i < length items \<longrightarrow>
      computeCrossFeedScores items i =
        Some (crossFeedTier (card (corroboratingSources keywordHitRatio items (items ! i)))))
   \<and> crossFeedTier 0 = 0 \<and> crossFeedTier 1 = 30 \<and> crossFeedTier 2 = 40
   \<and> (3 \<le> n \<longrightarrow> crossFeedTier n = 50)
   \<and> (m \<le> n \<longrightarrow> crossFeedTier m \<le> crossFeedTier n)
   \<and> (i < length items \<and> corroboratingSources keywordHitRatio items (items ! i) = {} \<longrightarrow>
        computeCrossFeedScores items i = Some 0)"
  by (simp add: computeCrossFeedScores_at crossFeedScoreAt_card crossFeedTier_def)

theorem crossFeed_counts_sources_witness:
  "computeCrossFeedScores [docSenate, docGates] 0 = Some 30
   \<and> card (corroboratingSources keywordHitRatio [docSenate, docGates] docSenate) = 1
   \<and> crossFeedTier 3 = 50 \<and> crossFeedTier 1 \<le> crossFeedTier 3"
  using crossFeed_counts_sources [where i = 0 and items = "[docSenate, docGates]"
      and n = 3 and m = 1]
  by (simp add: corroboratingSources_hits)

text \<open>
  The code departs from C5 when a keyword of \<open>i\<close> is repeated in the other title: only
  the keywords of \<open>i\<close> are made a set, the keywords of the other title stay a list and
  every occurrence is counted. The title "Bill Gates backs climate bill" shares one
  keyword with the five keywords of "Senate passes budget bill after debate", a share of
  0.2, so no source corroborates and the score of the claim is 0; the code counts both
  occurrences of "bill", reaches 2/5 = 0.4 and assigns 30.
\<close>

theorem crossFeed_shared_keywords_counterexample:
  "getOr0 (computeCrossFeedScores [docSenate, docGates]) 0 = 30
   \<and> crossFeedTier (card (corroboratingSources sharedKeywordRatio [docSenate, docGates]
         ([docSenate, docGates] ! 0))) = 0"
  by (simp add: computeCrossFeedScores_at crossFeedScoreAt_card corroboratingSources_hits
      corroboratingSources_shared crossFeedTier_def getOr0_def)

section \<open>Social score\<close>





















subsection \<open>Twenty-one copies of one document\<close>








end
